theory Spec2Isabelle
  imports Main
begin

section \<open>Python values and the exceptions of the two scripts\<close>

text \<open>
  The scripts \<^verbatim>\<open>seller.py\<close> (Ozon) and \<^verbatim>\<open>market.py\<close> (Yandex Market) read a supplier
  spreadsheet into a list of dictionaries and push stocks and prices to the two
  marketplaces. A cell of the spreadsheet is a Python object: a string, an integer, or
  \<^verbatim>\<open>None\<close> when \<^verbatim>\<open>dict.get\<close> finds no such key. A Python \<^verbatim>\<open>str\<close> is modelled by its
  UTF-8 bytes: equality, membership, splitting at \<^verbatim>\<open>"."\<close> and the ASCII class \<^verbatim>\<open>[0-9]\<close>
  agree on bytes and on code points. Floating-point cells are outside the model.
\<close>

datatype pyval = PyNone | PyInt int | PyStr string

datatype error =
    ValueError | TypeError | AttributeError
  | ReadTimeout | ConnectionError | HTTPError

definition is_digit :: "char \<Rightarrow> bool" where
  "is_digit c = (c \<in> set ''0123456789'')"

definition digit_val :: "char \<Rightarrow> nat" where
  "digit_val c = of_char c - 48"

definition digit_char :: "nat \<Rightarrow> char" where
  "digit_char d = ''0123456789'' ! d"

definition dec_value :: "string \<Rightarrow> nat" where
  "dec_value s = foldl (\<lambda>a c. 10 * a + digit_val c) 0 s"

text \<open>\<^verbatim>\<open>str(n)\<close> of a non-negative integer: its decimal digits, most significant first.\<close>

function str_nat :: "nat \<Rightarrow> string" where
  "str_nat n = (if n < 10 then [digit_char n] else str_nat (n div 10) @ [digit_char (n mod 10)])"
  by pat_completeness auto
termination
  by (relation "measure id") auto

declare str_nat.simps [simp del]

text \<open>\<^verbatim>\<open>str(x)\<close> for the three kinds of cell.\<close>

fun py_str :: "pyval \<Rightarrow> string" where
  "py_str PyNone = ''None''"
| "py_str (PyInt i) = (if i < 0 then CHR ''-'' # str_nat (nat (- i)) else str_nat (nat i))"
| "py_str (PyStr s) = s"

text \<open>
  \<^verbatim>\<open>int(x)\<close>. On an integer it is the identity, on \<^verbatim>\<open>None\<close> it raises \<^verbatim>\<open>TypeError\<close>. On a
  string it strips surrounding whitespace (for an ASCII string the characters 9 to 13
  and 32), reads an optional sign and then decimal digits, where single underscores may
  separate digits; anything else raises \<^verbatim>\<open>ValueError\<close>, and so does a literal of more
  digits than the interpreter's limit, which is 4300 unless configured otherwise. The
  strings modelled are the ASCII ones: for a string with a character outside ASCII,
  CPython first maps the decimal digits and the spaces of other scripts to ASCII, which
  depends on its Unicode tables and is not modelled (such a string is refused here).
\<close>

definition is_space :: "char \<Rightarrow> bool" where
  "is_space c = (of_char c \<in> set [9, 10, 11, 12, 13, 32 :: nat])"

definition int_max_str_digits :: int where
  "int_max_str_digits = 4300"

definition strip :: "string \<Rightarrow> string" where
  "strip s = rev (dropWhile is_space (rev (dropWhile is_space s)))"

fun int_body_ok :: "string \<Rightarrow> bool" where
  "int_body_ok [] = False"
| "int_body_ok [c] = is_digit c"
| "int_body_ok (c # d # r) =
     (is_digit c \<and> (if d = CHR ''_'' then int_body_ok r else int_body_ok (d # r)))"

definition int_of_str :: "string \<Rightarrow> error + int" where
  "int_of_str s =
     (let t = strip s;
          neg = (case t of [] \<Rightarrow> False | c # _ \<Rightarrow> c = CHR ''-'');
          body = (case t of [] \<Rightarrow> []
                  | c # r \<Rightarrow> if c = CHR ''-'' \<or> c = CHR ''+'' then r else t)
      in if int_body_ok body \<and> int (length (filter is_digit body)) \<le> int_max_str_digits
         then Inr ((if neg then - 1 else 1) * int (dec_value (filter is_digit body)))
         else Inl ValueError)"

fun py_int :: "pyval \<Rightarrow> error + int" where
  "py_int PyNone = Inl TypeError"
| "py_int (PyInt i) = Inr i"
| "py_int (PyStr s) = int_of_str s"

section \<open>The supplier feed\<close>

text \<open>
  One row of the spreadsheet, as \<^verbatim>\<open>create_stocks\<close> and \<^verbatim>\<open>create_prices\<close> read it:
  the three fields are the values of \<^verbatim>\<open>watch.get(k)\<close> for the column titles "code",
  "quantity" and "price", which the source spells in Russian (transliterated here as
  \<open>kod\<close>, \<open>kolichestvo\<close>, \<open>tsena\<close>); a missing key reads as \<open>PyNone\<close>.
\<close>

record watch =
  kod :: pyval
  kolichestvo :: pyval
  tsena :: pyval

definition code_of :: "watch \<Rightarrow> string" where
  "code_of w = py_str (kod w)"

text \<open>
  The quantity policy, written inline in both \<^verbatim>\<open>create_stocks\<close>:
  \<^verbatim>\<open>
    count = str(watch.get(KOLICHESTVO))
    if count == ">10":   stock = 100
    elif count == "1":   stock = 0
    else:                stock = int(watch.get(KOLICHESTVO))
  \<close>
\<close>

definition stock_of :: "watch \<Rightarrow> error + int" where
  "stock_of w =
     (let count = py_str (kolichestvo w)
      in if count = ''>10'' then Inr 100
         else if count = ''1'' then Inr 0
         else py_int (kolichestvo w))"

section \<open>Reconciliation: \<^verbatim>\<open>create_stocks\<close>\<close>

text \<open>
  Both modules run the same two loops and differ in the dictionary they append. The
  first loop walks the feed; a record whose code is in \<open>offer_ids\<close> appends an entry and
  removes the first occurrence of the code from \<open>offer_ids\<close> (\<^verbatim>\<open>list.remove\<close>), which is
  the list object of the caller. The loop state is the pair of \<open>stocks\<close> and
  \<open>offer_ids\<close>; an exception of \<^verbatim>\<open>int\<close> leaves the function.
\<close>

fun stocks_loop ::
  "(string \<Rightarrow> int \<Rightarrow> 'e) \<Rightarrow> watch list \<Rightarrow> string list \<Rightarrow> 'e list
     \<Rightarrow> error + ('e list \<times> string list)" where
  "stocks_loop mk [] offer_ids stocks = Inr (stocks, offer_ids)"
| "stocks_loop mk (w # ws) offer_ids stocks =
     (if code_of w \<in> set offer_ids
      then (case stock_of w of
              Inl e \<Rightarrow> Inl e
            | Inr stock \<Rightarrow>
                stocks_loop mk ws (remove1 (code_of w) offer_ids)
                  (stocks @ [mk (code_of w) stock]))
      else stocks_loop mk ws offer_ids stocks)"

text \<open>
  The second loop appends a zero entry for every identifier left. The result pairs the
  returned list with the final content of the caller's \<open>offer_ids\<close>.
\<close>

definition create_stocks_gen ::
  "(string \<Rightarrow> int \<Rightarrow> 'e) \<Rightarrow> watch list \<Rightarrow> string list
     \<Rightarrow> error + ('e list \<times> string list)" where
  "create_stocks_gen mk watch_remnants offer_ids =
     (case stocks_loop mk watch_remnants offer_ids [] of
        Inl e \<Rightarrow> Inl e
      | Inr (stocks, rest) \<Rightarrow> Inr (stocks @ map (\<lambda>offer_id. mk offer_id 0) rest, rest))"

text \<open>
  The dictionaries appended by \<^verbatim>\<open>seller.create_prices\<close> and \<^verbatim>\<open>seller.create_stocks\<close>.
  Both have a key \<^verbatim>\<open>offer_id\<close>; the unqualified name \<open>offer_id\<close> is the field of the stock
  entry.
\<close>

record seller_price =
  auto_action_enabled :: string
  currency_code :: string
  offer_id :: string
  old_price :: string
  price :: string

record seller_stock =
  offer_id :: string
  stock :: int

definition seller_create_stocks ::
  "watch list \<Rightarrow> string list \<Rightarrow> error + (seller_stock list \<times> string list)" where
  "seller_create_stocks watch_remnants offer_ids =
     create_stocks_gen (\<lambda>c s. \<lparr>offer_id = c, stock = s\<rparr>) watch_remnants offer_ids"

text \<open>
  The Market entry carries the warehouse and a timestamp; the clock is read once before
  the loops, so \<open>date\<close> is a parameter here.
\<close>

record market_item =
  count :: int
  item_type :: string
  updatedAt :: string

record market_stock =
  sku :: string
  warehouseId :: string
  items :: "market_item list"

definition market_entry :: "string \<Rightarrow> string \<Rightarrow> string \<Rightarrow> int \<Rightarrow> market_stock" where
  "market_entry warehouse_id date c s =
     \<lparr>sku = c, warehouseId = warehouse_id,
      items = [\<lparr>count = s, item_type = ''FIT'', updatedAt = date\<rparr>]\<rparr>"

definition market_create_stocks ::
  "string \<Rightarrow> watch list \<Rightarrow> string list \<Rightarrow> string
     \<Rightarrow> error + (market_stock list \<times> string list)" where
  "market_create_stocks date watch_remnants offer_ids warehouse_id =
     create_stocks_gen (market_entry warehouse_id date) watch_remnants offer_ids"

section \<open>Prices: \<^verbatim>\<open>price_conversion\<close> and \<^verbatim>\<open>seller.create_prices\<close>\<close>

text \<open>\<^verbatim>\<open>s.split(sep)\<close> for a separator of one character; the result is never empty.\<close>

fun split_char :: "char \<Rightarrow> string \<Rightarrow> string list" where
  "split_char sep [] = [[]]"
| "split_char sep (c # cs) =
     (if c = sep then [] # split_char sep cs
      else (case split_char sep cs of
              [] \<Rightarrow> [[c]]
            | p # ps \<Rightarrow> (c # p) # ps))"

text \<open>\<^verbatim>\<open>re.sub("[^0-9]", "", x)\<close> deletes every character outside the class.\<close>

definition re_sub_non_digits :: "string \<Rightarrow> string" where
  "re_sub_non_digits x = filter is_digit x"

text \<open>\<^verbatim>\<open>return re.sub("[^0-9]", "", price.split(".")[0])\<close>\<close>

definition price_conversion :: "string \<Rightarrow> string" where
  "price_conversion price_str = re_sub_non_digits (hd (split_char (CHR ''.'') price_str))"

text \<open>
  \<^verbatim>\<open>create_prices\<close> passes the raw cell; only a string has a method \<^verbatim>\<open>split\<close>.
\<close>

fun price_conversion_cell :: "pyval \<Rightarrow> error + string" where
  "price_conversion_cell (PyStr s) = Inr (price_conversion s)"
| "price_conversion_cell _ = Inl AttributeError"

fun prices_loop ::
  "watch list \<Rightarrow> string list \<Rightarrow> seller_price list \<Rightarrow> error + seller_price list" where
  "prices_loop [] offer_ids prices = Inr prices"
| "prices_loop (w # ws) offer_ids prices =
     (if code_of w \<in> set offer_ids
      then (case price_conversion_cell (tsena w) of
              Inl e \<Rightarrow> Inl e
            | Inr p \<Rightarrow>
                prices_loop ws offer_ids
                  (prices @ [\<lparr>auto_action_enabled = ''UNKNOWN'', currency_code = ''RUB'',
                              seller_price.offer_id = code_of w, old_price = ''0'',
                              price = p\<rparr>]))
      else prices_loop ws offer_ids prices)"

definition seller_create_prices :: "watch list \<Rightarrow> string list \<Rightarrow> error + seller_price list" where
  "seller_create_prices watch_remnants offer_ids = prices_loop watch_remnants offer_ids []"

section \<open>Batching: \<^verbatim>\<open>divide\<close>\<close>

text \<open>
  \<^verbatim>\<open>for i in range(0, len(lst), n): yield lst[i : i + n]\<close>. The loop over the range with a
  positive step is \<open>chunks_from\<close>, started at \<open>0\<close>; the test \<open>n = 0\<close> in it only serves
  termination. \<^verbatim>\<open>range\<close> refuses a step of zero and is empty for a negative one.
\<close>

function chunks_from :: "'a list \<Rightarrow> nat \<Rightarrow> nat \<Rightarrow> 'a list list" where
  "chunks_from lst n i =
     (if n = 0 \<or> length lst \<le> i then []
      else take n (drop i lst) # chunks_from lst n (i + n))"
  by pat_completeness auto
termination
  by (relation "measure (\<lambda>(lst, n, i). length lst - i)") auto

declare chunks_from.simps [simp del]

definition divide_lst :: "'a list \<Rightarrow> int \<Rightarrow> error + 'a list list" where
  "divide_lst lst n =
     (if n = 0 then Inl ValueError
      else if n < 0 then Inr []
      else Inr (chunks_from lst (nat n) 0))"

section \<open>Paging: the two \<^verbatim>\<open>get_offer_ids\<close>\<close>

text \<open>
  \<^verbatim>\<open>get_product_list\<close> is an HTTP request. Its answer for a given cursor is a parameter of
  the model: either an exception of \<^verbatim>\<open>requests\<close> or the decoded \<^verbatim>\<open>result\<close> object. The
  listed products are kept as the identifier that the last loop of \<^verbatim>\<open>get_offer_ids\<close>
  reads from each of them (\<^verbatim>\<open>offer_id\<close>, resp. \<^verbatim>\<open>offer.shopSku\<close>); an answer that
  arrives is taken to have the fields the code reads. Neither loop is bounded,
  so a pager that never leaves its loop has the value \<open>None\<close>.
\<close>

record seller_page =
  page_items :: "string list"
  total :: int
  last_id :: string

partial_function (option) seller_pages ::
  "(string \<Rightarrow> error + seller_page) \<Rightarrow> string \<Rightarrow> string list \<Rightarrow> (error + string list) option" where
  "seller_pages api from_id product_list =
     (case api from_id of
        Inl e \<Rightarrow> Some (Inl e)
      | Inr some_prod \<Rightarrow>
          (let product_list' = product_list @ page_items some_prod
           in if total some_prod = int (length product_list') then Some (Inr product_list')
              else seller_pages api (last_id some_prod) product_list'))"

definition seller_get_offer_ids ::
  "(string \<Rightarrow> error + seller_page) \<Rightarrow> (error + string list) option" where
  "seller_get_offer_ids api = seller_pages api [] []"

record market_page =
  offerMappingEntries :: "string list"
  nextPageToken :: "string option"

text \<open>\<^verbatim>\<open>not page\<close> holds for \<^verbatim>\<open>None\<close> and for the empty string.\<close>

definition no_page :: "string option \<Rightarrow> bool" where
  "no_page page = (case page of None \<Rightarrow> True | Some t \<Rightarrow> t = [])"

partial_function (option) market_pages ::
  "(string \<Rightarrow> error + market_page) \<Rightarrow> string \<Rightarrow> string list \<Rightarrow> (error + string list) option" where
  "market_pages api page product_list =
     (case api page of
        Inl e \<Rightarrow> Some (Inl e)
      | Inr some_prod \<Rightarrow>
          (let product_list' = product_list @ offerMappingEntries some_prod
           in if no_page (nextPageToken some_prod) then Some (Inr product_list')
              else market_pages api (the (nextPageToken some_prod)) product_list'))"

text \<open>The Market request also names the campaign.\<close>

definition market_get_offer_ids ::
  "(string \<Rightarrow> string \<Rightarrow> error + market_page) \<Rightarrow> string \<Rightarrow> (error + string list) option" where
  "market_get_offer_ids api campaign_id = market_pages (api campaign_id) [] []"

section \<open>The two entry points\<close>

text \<open>
  \<^verbatim>\<open>update_stocks\<close> and \<^verbatim>\<open>update_price\<close> are HTTP requests too: a request either raises
  (\<open>Some e\<close>) or is accepted (\<open>None\<close>); the decoded answer is discarded by every caller.
  A \<^verbatim>\<open>for\<close> loop over the batches stops at the first request that raises. What a run
  of \<^verbatim>\<open>main\<close> leaves behind is the sequence of accepted requests and the line printed by
  the \<^verbatim>\<open>except\<close> clause that caught an exception, if one did.
\<close>

fun send_all :: "('b \<Rightarrow> error option) \<Rightarrow> 'b list \<Rightarrow> 'b list \<Rightarrow> 'b list \<times> error option" where
  "send_all update [] sent = (sent, None)"
| "send_all update (b # bs) sent =
     (case update b of
        Some e \<Rightarrow> (sent, Some e)
      | None \<Rightarrow> send_all update bs (sent @ [b]))"

datatype message =
    Timeout_message
  | Connection_message error
  | ERROR_2_message error

text \<open>
  \<^verbatim>\<open>
    except requests.exceptions.ReadTimeout:            print(<timeout text>)
    except requests.exceptions.ConnectionError as error: print(error, <connection text>)
    except Exception as error:                          print(error, "ERROR_2")
  \<close>
\<close>

definition handler :: "error \<Rightarrow> message" where
  "handler e =
     (if e = ReadTimeout then Timeout_message
      else if e = ConnectionError then Connection_message e
      else ERROR_2_message e)"

record 'c outcome =
  calls :: "'c list"
  printed :: "message option"

datatype seller_call =
    Update_stocks "seller_stock list"
  | Update_price "seller_price list"

text \<open>
  \<^verbatim>\<open>seller.main\<close>: one \<^verbatim>\<open>try\<close> block. The list \<open>offer_ids\<close> that \<^verbatim>\<open>create_prices\<close> receives
  is the object that \<^verbatim>\<open>create_stocks\<close> has mutated, that is the second component of its
  model.
\<close>

definition seller_main ::
  "(string \<Rightarrow> error + seller_page) \<Rightarrow> error + watch list
     \<Rightarrow> (seller_stock list \<Rightarrow> error option) \<Rightarrow> (seller_price list \<Rightarrow> error option)
     \<Rightarrow> seller_call outcome option" where
  "seller_main api download update_stocks update_price =
     (case seller_get_offer_ids api of
        None \<Rightarrow> None
      | Some (Inl e) \<Rightarrow> Some \<lparr>calls = [], printed = Some (handler e)\<rparr>
      | Some (Inr offer_ids) \<Rightarrow>
     (case download of
        Inl e \<Rightarrow> Some \<lparr>calls = [], printed = Some (handler e)\<rparr>
      | Inr watch_remnants \<Rightarrow>
     (case seller_create_stocks watch_remnants offer_ids of
        Inl e \<Rightarrow> Some \<lparr>calls = [], printed = Some (handler e)\<rparr>
      | Inr (stocks, offer_ids') \<Rightarrow>
     (case divide_lst stocks 100 of
        Inl e \<Rightarrow> Some \<lparr>calls = [], printed = Some (handler e)\<rparr>
      | Inr stock_batches \<Rightarrow>
     (case send_all update_stocks stock_batches [] of
        (sent, Some e) \<Rightarrow> Some \<lparr>calls = map Update_stocks sent, printed = Some (handler e)\<rparr>
      | (sent, None) \<Rightarrow>
     (case seller_create_prices watch_remnants offer_ids' of
        Inl e \<Rightarrow> Some \<lparr>calls = map Update_stocks sent, printed = Some (handler e)\<rparr>
      | Inr prices \<Rightarrow>
     (case divide_lst prices 900 of
        Inl e \<Rightarrow> Some \<lparr>calls = map Update_stocks sent, printed = Some (handler e)\<rparr>
      | Inr price_batches \<Rightarrow>
     (case send_all update_price price_batches [] of
        (sent_prices, err) \<Rightarrow>
          Some \<lparr>calls = map Update_stocks sent @ map Update_price sent_prices,
                printed = map_option handler err\<rparr>))))))))"

text \<open>
  \<^verbatim>\<open>market.main\<close> runs the same block twice inside one \<^verbatim>\<open>try\<close>, first for the FBS
  campaign and then for the DBS campaign: page the catalogue, build the stocks, send them
  in batches of 2000. The call \<^verbatim>\<open>upload_prices(...)\<close> that ends each block creates a
  coroutine object that is never awaited, so no request comes from it. \<open>market_block\<close>
  is one such block; it yields the accepted batches and the exception that ended it, if
  any. The feed is downloaded before the \<^verbatim>\<open>try\<close> and is a parameter.
\<close>

definition market_block ::
  "(string \<Rightarrow> string \<Rightarrow> error + market_page) \<Rightarrow> (string \<Rightarrow> market_stock list \<Rightarrow> error option)
     \<Rightarrow> string \<Rightarrow> watch list \<Rightarrow> string \<Rightarrow> string
     \<Rightarrow> (market_stock list list \<times> error option) option" where
  "market_block api update_stocks date watch_remnants campaign_id warehouse_id =
     (case market_get_offer_ids api campaign_id of
        None \<Rightarrow> None
      | Some (Inl e) \<Rightarrow> Some ([], Some e)
      | Some (Inr offer_ids) \<Rightarrow>
     (case market_create_stocks date watch_remnants offer_ids warehouse_id of
        Inl e \<Rightarrow> Some ([], Some e)
      | Inr (stocks, _) \<Rightarrow>
     (case divide_lst stocks 2000 of
        Inl e \<Rightarrow> Some ([], Some e)
      | Inr batches \<Rightarrow> Some (send_all (update_stocks campaign_id) batches []))))"

text \<open>A request of \<^verbatim>\<open>market.main\<close> is recorded with the campaign it was sent to.\<close>

definition market_main ::
  "(string \<Rightarrow> string \<Rightarrow> error + market_page) \<Rightarrow> (string \<Rightarrow> market_stock list \<Rightarrow> error option)
     \<Rightarrow> string \<Rightarrow> string \<Rightarrow> watch list \<Rightarrow> string \<Rightarrow> string \<Rightarrow> string \<Rightarrow> string
     \<Rightarrow> (string \<times> market_stock list) outcome option" where
  "market_main api update_stocks date_fbs date_dbs watch_remnants
       campaign_fbs_id campaign_dbs_id warehouse_fbs_id warehouse_dbs_id =
     (case market_block api update_stocks date_fbs watch_remnants
             campaign_fbs_id warehouse_fbs_id of
        None \<Rightarrow> None
      | Some (sent, Some e) \<Rightarrow>
          Some \<lparr>calls = map (Pair campaign_fbs_id) sent, printed = Some (handler e)\<rparr>
      | Some (sent, None) \<Rightarrow>
     (case market_block api update_stocks date_dbs watch_remnants
             campaign_dbs_id warehouse_dbs_id of
        None \<Rightarrow> None
      | Some (sent', err) \<Rightarrow>
          Some \<lparr>calls = map (Pair campaign_fbs_id) sent @ map (Pair campaign_dbs_id) sent',
                printed = map_option handler err\<rparr>))"

section \<open>Notions used to state the properties\<close>

definition is_ok :: "error + 'a \<Rightarrow> bool" where
  "is_ok r = (case r of Inl _ \<Rightarrow> False | Inr _ \<Rightarrow> True)"

text \<open>
  The feed records that the first loop of \<^verbatim>\<open>create_stocks\<close> selects, and the content
  of \<open>offer_ids\<close> when that loop ends (both without looking at quantities).
\<close>

fun matched :: "watch list \<Rightarrow> string list \<Rightarrow> watch list" where
  "matched [] offer_ids = []"
| "matched (w # ws) offer_ids =
     (if code_of w \<in> set offer_ids
      then w # matched ws (remove1 (code_of w) offer_ids)
      else matched ws offer_ids)"

fun remaining :: "watch list \<Rightarrow> string list \<Rightarrow> string list" where
  "remaining [] offer_ids = offer_ids"
| "remaining (w # ws) offer_ids =
     (if code_of w \<in> set offer_ids
      then remaining ws (remove1 (code_of w) offer_ids)
      else remaining ws offer_ids)"

text \<open>The stock of a record whose quantity is accepted.\<close>

definition stock_val :: "watch \<Rightarrow> int" where
  "stock_val w = (case stock_of w of Inl _ \<Rightarrow> 0 | Inr n \<Rightarrow> n)"

definition quantities_ok :: "watch list \<Rightarrow> string list \<Rightarrow> bool" where
  "quantities_ok watch_remnants offer_ids =
     list_all (\<lambda>w. is_ok (stock_of w)) (matched watch_remnants offer_ids)"

text \<open>The elements of a list in the order of their first occurrence, skipping \<open>seen\<close>.\<close>

fun first_occs :: "'a list \<Rightarrow> 'a list \<Rightarrow> 'a list" where
  "first_occs seen [] = []"
| "first_occs seen (x # xs) =
     (if x \<in> set seen then first_occs seen xs else x # first_occs (x # seen) xs)"

text \<open>
  The order that the specification gives for the identifiers of the output: matched ones
  in the order of the universe, then unmatched ones in the order of the universe.
\<close>

definition universe_order :: "watch list \<Rightarrow> string list \<Rightarrow> string list" where
  "universe_order watch_remnants offer_ids =
     filter (\<lambda>u. u \<in> code_of ` set watch_remnants) offer_ids
       @ filter (\<lambda>u. u \<notin> code_of ` set watch_remnants) offer_ids"

text \<open>
  Price normalisation in the words of the specification: cut the string at the first
  decimal point, then delete every character that is not a digit.
\<close>

definition normalize_price :: "string \<Rightarrow> string" where
  "normalize_price s = filter is_digit (takeWhile (\<lambda>c. c \<noteq> CHR ''.'') s)"

text \<open>The end-to-end scenario of the specification.\<close>

definition scenario_feed :: "watch list" where
  "scenario_feed =
     [\<lparr>kod = PyStr ''A'', kolichestvo = PyStr ''>10'', tsena = PyStr ''100.00''\<rparr>,
      \<lparr>kod = PyStr ''B'', kolichestvo = PyStr ''1'', tsena = PyStr ''50.00''\<rparr>]"

definition scenario_universe :: "string list" where
  "scenario_universe = [''A'', ''B'', ''C'']"

text \<open>
  The run of a pager, told without its exit. Started with cursor \<open>c\<close>, request \<open>n\<close>
  (counted from \<open>0\<close>) is made with the cursor \<open>seller_cursor api c n\<close> and brings the
  items \<open>seller_items api c n\<close>; \<open>seller_fetched api c n\<close> are the items of the requests
  \<open>0\<close> to \<open>n\<close> in that order. The loop, entered with \<open>k\<close> items already in
  \<open>product_list\<close>, ends at request \<open>n\<close> when that request raises or the platform's test
  succeeds after it: for Seller the reported total equals the number of items
  accumulated, for Market the next-page token of the page is absent or empty. \<^verbatim>\<open>get_offer_ids\<close> starts with
  the empty cursor and the empty list.
\<close>

definition seller_next :: "(string \<Rightarrow> error + seller_page) \<Rightarrow> string \<Rightarrow> string" where
  "seller_next api c = (case api c of Inl _ \<Rightarrow> c | Inr p \<Rightarrow> last_id p)"

definition seller_cursor :: "(string \<Rightarrow> error + seller_page) \<Rightarrow> string \<Rightarrow> nat \<Rightarrow> string" where
  "seller_cursor api c n = (seller_next api ^^ n) c"

definition seller_items ::
  "(string \<Rightarrow> error + seller_page) \<Rightarrow> string \<Rightarrow> nat \<Rightarrow> string list" where
  "seller_items api c n =
     (case api (seller_cursor api c n) of Inl _ \<Rightarrow> [] | Inr p \<Rightarrow> page_items p)"

definition seller_fetched ::
  "(string \<Rightarrow> error + seller_page) \<Rightarrow> string \<Rightarrow> nat \<Rightarrow> string list" where
  "seller_fetched api c n = concat (map (seller_items api c) [0..<Suc n])"

definition seller_ends ::
  "(string \<Rightarrow> error + seller_page) \<Rightarrow> string \<Rightarrow> nat \<Rightarrow> nat \<Rightarrow> bool" where
  "seller_ends api c k n =
     (case api (seller_cursor api c n) of
        Inl _ \<Rightarrow> True
      | Inr p \<Rightarrow> total p = int (k + length (seller_fetched api c n)))"

definition market_next :: "(string \<Rightarrow> error + market_page) \<Rightarrow> string \<Rightarrow> string" where
  "market_next api c =
     (case api c of Inl _ \<Rightarrow> c | Inr p \<Rightarrow> (case nextPageToken p of None \<Rightarrow> [] | Some t \<Rightarrow> t))"

definition market_cursor :: "(string \<Rightarrow> error + market_page) \<Rightarrow> string \<Rightarrow> nat \<Rightarrow> string" where
  "market_cursor api c n = (market_next api ^^ n) c"

definition market_items ::
  "(string \<Rightarrow> error + market_page) \<Rightarrow> string \<Rightarrow> nat \<Rightarrow> string list" where
  "market_items api c n =
     (case api (market_cursor api c n) of Inl _ \<Rightarrow> [] | Inr p \<Rightarrow> offerMappingEntries p)"

definition market_fetched ::
  "(string \<Rightarrow> error + market_page) \<Rightarrow> string \<Rightarrow> nat \<Rightarrow> string list" where
  "market_fetched api c n = concat (map (market_items api c) [0..<Suc n])"

definition market_ends :: "(string \<Rightarrow> error + market_page) \<Rightarrow> string \<Rightarrow> nat \<Rightarrow> bool" where
  "market_ends api c n =
     (case api (market_cursor api c n) of
        Inl _ \<Rightarrow> True
      | Inr p \<Rightarrow> nextPageToken p = None \<or> nextPageToken p = Some [])"

text \<open>
  What the pager returns when its loop, entered with \<open>product_list = acc\<close>, ends at
  request \<open>n\<close>: the exception of that request, or everything accumulated.
\<close>

definition seller_result ::
  "(string \<Rightarrow> error + seller_page) \<Rightarrow> string \<Rightarrow> string list \<Rightarrow> nat \<Rightarrow> error + string list" where
  "seller_result api c acc n =
     (case api (seller_cursor api c n) of
        Inl e \<Rightarrow> Inl e
      | Inr _ \<Rightarrow> Inr (acc @ seller_fetched api c n))"

definition market_result ::
  "(string \<Rightarrow> error + market_page) \<Rightarrow> string \<Rightarrow> string list \<Rightarrow> nat \<Rightarrow> error + string list" where
  "market_result api c acc n =
     (case api (market_cursor api c n) of
        Inl e \<Rightarrow> Inl e
      | Inr _ \<Rightarrow> Inr (acc @ market_fetched api c n))"

text \<open>
  Two catalogues of two pages that both list the identifier A: the Market one hands out
  the token p2 with its first page, the Seller one reports a total of 2.
\<close>

definition repeating_market :: "string \<Rightarrow> error + market_page" where
  "repeating_market page =
     (if page = [] then Inr \<lparr>offerMappingEntries = [''A''], nextPageToken = Some ''p2''\<rparr>
      else if page = ''p2'' then Inr \<lparr>offerMappingEntries = [''A''], nextPageToken = None\<rparr>
      else Inl HTTPError)"

definition repeating_seller :: "string \<Rightarrow> error + seller_page" where
  "repeating_seller from_id =
     (if from_id = [] then Inr \<lparr>page_items = [''A''], total = 2, last_id = ''x1''\<rparr>
      else if from_id = ''x1'' then Inr \<lparr>page_items = [''A''], total = 2, last_id = ''x2''\<rparr>
      else Inl HTTPError)"

text \<open>A Seller catalogue of one page that lists the universe of the scenario.\<close>

definition scenario_seller :: "string \<Rightarrow> error + seller_page" where
  "scenario_seller from_id = Inr \<lparr>page_items = scenario_universe, total = 3, last_id = []\<rparr>"

text \<open>
  A Market transport whose listing of the campaign fbs fails to connect, while any
  other campaign lists the single offer A on one page; and a transport that accepts
  every batch.
\<close>

definition fbs_down :: "string \<Rightarrow> string \<Rightarrow> error + market_page" where
  "fbs_down campaign_id page =
     (if campaign_id = ''fbs'' then Inl ConnectionError
      else Inr \<lparr>offerMappingEntries = [''A''], nextPageToken = None\<rparr>)"

definition accept_all :: "string \<Rightarrow> market_stock list \<Rightarrow> error option" where
  "accept_all campaign_id batch = None"

section \<open>Decimal numerals and the quantity policy\<close>








lemma digit_not_space: "is_digit c \<Longrightarrow> \<not> is_space c"
  by (auto simp: is_digit_def is_space_def)

lemma digit_not_sign: "is_digit c \<Longrightarrow> c \<noteq> CHR ''-'' \<and> c \<noteq> CHR ''+'' \<and> c \<noteq> CHR ''_'' \<and> c \<noteq> CHR ''>''"
  by (auto simp: is_digit_def)

lemma strip_digits: "list_all is_digit s \<Longrightarrow> strip s = s"
proof (cases s rule: rev_cases)
  case Nil
  then show ?thesis by (simp add: strip_def)
next
  case (snoc ys y)
  assume d: "list_all is_digit s"
  with snoc have y: "\<not> is_space y" by (simp add: digit_not_space)
  from d have "dropWhile is_space s = s"
    by (cases s) (simp_all add: digit_not_space)
  with snoc y show ?thesis
    by (simp add: strip_def)
qed

lemma int_body_ok_digits: "s \<noteq> [] \<Longrightarrow> list_all is_digit s \<Longrightarrow> int_body_ok s"
  by (induction s rule: int_body_ok.induct) (auto simp: digit_not_sign)

lemma int_of_str_digits_cases:
  assumes "s \<noteq> []" and "list_all is_digit s"
  shows "int_of_str s =
           (if int (length s) \<le> int_max_str_digits then Inr (int (dec_value s))
            else Inl ValueError)"
proof -
  from assms obtain c r where s: "s = c # r" by (cases s) auto
  with assms have c: "c \<noteq> CHR ''-''" "c \<noteq> CHR ''+''"
    by (simp_all add: digit_not_sign)
  have f: "filter is_digit (c # r) = c # r"
    using assms(2) s by (simp add: filter_id_conv list_all_iff)
  have t: "strip (c # r) = c # r"
    using strip_digits[OF assms(2)] s by simp
  have b: "int_body_ok (c # r)"
    using int_body_ok_digits[OF assms] s by simp
  have "int_of_str (c # r) =
           (if int (length (c # r)) \<le> int_max_str_digits then Inr (int (dec_value (c # r)))
            else Inl ValueError)"
    unfolding int_of_str_def t Let_def
    using c b by (simp only: list.case f if_False if_True simp_thms) simp
  then show ?thesis by (simp only: s)
qed

lemma int_of_str_digits:
  assumes "s \<noteq> []" and "list_all is_digit s" and "int (length s) \<le> int_max_str_digits"
  shows "int_of_str s = Inr (int (dec_value s))"
  using int_of_str_digits_cases[OF assms(1,2)] assms(3) by simp




lemma stock_of_digits_parse:
  assumes "kolichestvo w = PyStr s" and "s \<noteq> []" and "list_all is_digit s" and "s \<noteq> ''1''"
  shows "stock_of w = int_of_str s"
proof -
  from assms(2,3) have "s \<noteq> ''>10''"
    by (auto simp: is_digit_def)
  with assms show ?thesis
    by (simp add: stock_of_def)
qed

lemma stock_of_digits:
  assumes "kolichestvo w = PyStr s" and "s \<noteq> []" and "list_all is_digit s" and "s \<noteq> ''1''"
    and "int (length s) \<le> int_max_str_digits"
  shows "stock_of w = Inr (int (dec_value s))"
  using stock_of_digits_parse[OF assms(1-4)] int_of_str_digits[OF assms(2,3,5)] by simp




section \<open>The two loops of \<^verbatim>\<open>create_stocks\<close>\<close>

lemma quantities_ok_Nil: "quantities_ok [] U"
  by (simp add: quantities_ok_def)

lemma quantities_ok_Cons:
  "quantities_ok (w # ws) U =
     (if code_of w \<in> set U
      then is_ok (stock_of w) \<and> quantities_ok ws (remove1 (code_of w) U)
      else quantities_ok ws U)"
  by (simp add: quantities_ok_def)

lemma set_matched: "set (matched F U) \<subseteq> set F"
  by (induction F arbitrary: U) auto

lemma quantities_ok_all: "\<forall>w\<in>set F. is_ok (stock_of w) \<Longrightarrow> quantities_ok F U"
  using set_matched[of F U] by (auto simp: quantities_ok_def list_all_iff)

lemma is_ok_stock_val: "is_ok (stock_of w) \<Longrightarrow> stock_of w = Inr (stock_val w)"
  by (simp add: is_ok_def stock_val_def split: sum.splits)

lemma stocks_loop_ok:
  "quantities_ok F U \<Longrightarrow>
   stocks_loop mk F U acc =
     Inr (acc @ map (\<lambda>w. mk (code_of w) (stock_val w)) (matched F U), remaining F U)"
proof (induction F arbitrary: U acc)
  case Nil
  then show ?case by simp
next
  case (Cons w ws)
  show ?case
  proof (cases "code_of w \<in> set U")
    case False
    with Cons show ?thesis by (simp add: quantities_ok_Cons)
  next
    case True
    with Cons.prems have ok: "is_ok (stock_of w)"
      and rest: "quantities_ok ws (remove1 (code_of w) U)"
      by (simp_all add: quantities_ok_Cons)
    from Cons.IH[OF rest] True is_ok_stock_val[OF ok] show ?thesis
      by simp
  qed
qed

lemma stocks_loop_fail:
  "\<not> quantities_ok F U \<Longrightarrow> \<exists>e. stocks_loop mk F U acc = Inl e"
proof (induction F arbitrary: U acc)
  case Nil
  then show ?case by (simp add: quantities_ok_Nil)
next
  case (Cons w ws)
  show ?case
  proof (cases "code_of w \<in> set U")
    case False
    with Cons show ?thesis by (simp add: quantities_ok_Cons)
  next
    case True
    show ?thesis
    proof (cases "stock_of w")
      case (Inl e)
      with True show ?thesis by simp
    next
      case (Inr n)
      with True Cons.prems have "\<not> quantities_ok ws (remove1 (code_of w) U)"
        by (simp add: quantities_ok_Cons is_ok_def)
      from Cons.IH[OF this] True Inr show ?thesis by simp
    qed
  qed
qed

lemma create_stocks_gen_ok:
  "quantities_ok F U \<Longrightarrow>
   create_stocks_gen mk F U =
     Inr (map (\<lambda>w. mk (code_of w) (stock_val w)) (matched F U)
            @ map (\<lambda>u. mk u 0) (remaining F U), remaining F U)"
  by (simp add: create_stocks_gen_def stocks_loop_ok)

lemma create_stocks_gen_fail:
  "\<not> quantities_ok F U \<Longrightarrow> \<exists>e. create_stocks_gen mk F U = Inl e"
  using stocks_loop_fail[of F U mk "[]"] by (auto simp: create_stocks_gen_def)

lemma remove1_filter_distinct:
  "distinct U \<Longrightarrow> remove1 c (filter P U) = filter (\<lambda>u. u \<noteq> c \<and> P u) U"
proof -
  assume "distinct U"
  then have "remove1 c (filter P U) = removeAll c (filter P U)"
    by (simp add: distinct_remove1_removeAll)
  also have "\<dots> = filter (\<lambda>u. u \<noteq> c \<and> P u) U"
    by (induction U) auto
  finally show ?thesis .
qed

lemma remaining_distinct:
  "distinct U \<Longrightarrow> remaining F U = filter (\<lambda>u. u \<notin> code_of ` set F) U"
proof (induction F arbitrary: U)
  case Nil
  then show ?case by simp
next
  case (Cons w ws)
  have "remove1 (code_of w) U = filter (\<lambda>u. u \<noteq> code_of w) U"
    using Cons.prems by (simp add: distinct_remove1_removeAll removeAll_filter_not_eq) metis
  with Cons show ?case
    by (auto intro!: filter_cong simp: filter_id_conv)
qed

lemma matched_distinct_gen:
  "distinct U \<Longrightarrow>
   map code_of (matched F (filter (\<lambda>u. u \<notin> set seen) U)) =
     first_occs seen (filter (\<lambda>c. c \<in> set U) (map code_of F))"
proof (induction F arbitrary: seen)
  case Nil
  then show ?case by simp
next
  case (Cons w ws)
  let ?c = "code_of w"
  show ?case
  proof (cases "?c \<in> set U \<and> ?c \<notin> set seen")
    case True
    have rm: "remove1 ?c (filter (\<lambda>u. u \<notin> set seen) U) = filter (\<lambda>u. u \<notin> set (?c # seen)) U"
      using remove1_filter_distinct[OF Cons.prems, of ?c "\<lambda>u. u \<notin> set seen"] by simp
    from True Cons.IH[OF Cons.prems, of "?c # seen"] rm show ?thesis
      by simp
  next
    case False
    with Cons.IH[OF Cons.prems, of seen] show ?thesis
      by auto
  qed
qed

lemma matched_distinct:
  "distinct U \<Longrightarrow>
   map code_of (matched F U) = first_occs [] (filter (\<lambda>c. c \<in> set U) (map code_of F))"
  using matched_distinct_gen[of U F "[]"] by simp

lemma length_matched_remaining:
  "length (matched F U) + length (remaining F U) = length U"
  by (induction F arbitrary: U) (auto simp: length_remove1 in_set_conv_decomp)

lemma set_first_occs: "set (first_occs seen xs) = set xs - set seen"
  by (induction xs arbitrary: seen) auto

lemma distinct_first_occs: "distinct (first_occs seen xs)"
  by (induction xs arbitrary: seen) (auto simp: set_first_occs)


lemma set_matched_codes:
  "distinct U \<Longrightarrow> set (map code_of (matched F U)) = set U \<inter> code_of ` set F"
  by (auto simp: matched_distinct set_first_occs)

lemma out_ids_set:
  assumes "distinct U"
  shows "set (map code_of (matched F U) @ remaining F U) = set U"
  using set_matched_codes[OF assms, of F] remaining_distinct[OF assms, of F]
  by auto

lemma out_ids_distinct:
  assumes "distinct U"
  shows "distinct (map code_of (matched F U) @ remaining F U)"
proof -
  have "distinct (map code_of (matched F U))"
    by (simp add: matched_distinct[OF assms] distinct_first_occs)
  moreover have "distinct (remaining F U)"
    by (simp add: remaining_distinct[OF assms] assms)
  moreover have "set (map code_of (matched F U)) \<inter> set (remaining F U) = {}"
    using set_matched_codes[OF assms, of F] remaining_distinct[OF assms, of F] by auto
  ultimately show ?thesis by simp
qed

lemma seller_create_stocks_ok:
  "quantities_ok F U \<Longrightarrow>
   seller_create_stocks F U =
     Inr (map (\<lambda>w. \<lparr>offer_id = code_of w, stock = stock_val w\<rparr>) (matched F U)
            @ map (\<lambda>u. \<lparr>offer_id = u, stock = 0\<rparr>) (remaining F U), remaining F U)"
  by (simp add: seller_create_stocks_def create_stocks_gen_ok)

lemma market_create_stocks_ok:
  "quantities_ok F U \<Longrightarrow>
   market_create_stocks d F U wh =
     Inr (map (\<lambda>w. market_entry wh d (code_of w) (stock_val w)) (matched F U)
            @ map (\<lambda>u. market_entry wh d u 0) (remaining F U), remaining F U)"
  by (simp add: market_create_stocks_def create_stocks_gen_ok)

lemma sku_market_entry: "sku (market_entry wh d c n) = c"
  by (simp add: market_entry_def)

section \<open>Coverage of the universe\<close>

text \<open>
  Claim C1, as amended. The claim as written (for every feed) fails: a selected record
  whose quantity \<^verbatim>\<open>int\<close> refuses makes \<^verbatim>\<open>create_stocks\<close> raise, so nothing is returned.
  For pairwise distinct offer identifiers and a feed whose selected records all carry an
  accepted quantity, both \<^verbatim>\<open>create_stocks\<close> return a list as long as the universe, whose
  identifiers (\<^verbatim>\<open>offer_id\<close>, resp. \<^verbatim>\<open>sku\<close>) are pairwise distinct and form exactly the
  universe; an identifier that no feed record carries gets stock 0, and a feed record
  whose code is not in the universe gives no entry.
\<close>

theorem create_stocks_covers_universe:
  assumes "distinct U" and "quantities_ok F U"
  shows "(\<exists>out rest. seller_create_stocks F U = Inr (out, rest)
            \<and> length out = length U
            \<and> set (map offer_id out) = set U
            \<and> distinct (map offer_id out)
            \<and> (\<forall>u\<in>set U. u \<notin> code_of ` set F \<longrightarrow> \<lparr>offer_id = u, stock = 0\<rparr> \<in> set out)
            \<and> (\<forall>w\<in>set F. code_of w \<notin> set U \<longrightarrow> code_of w \<notin> set (map offer_id out)))
       \<and> (\<exists>out rest. market_create_stocks d F U wh = Inr (out, rest)
            \<and> length out = length U
            \<and> set (map sku out) = set U
            \<and> distinct (map sku out)
            \<and> (\<forall>u\<in>set U. u \<notin> code_of ` set F \<longrightarrow> market_entry wh d u 0 \<in> set out)
            \<and> (\<forall>w\<in>set F. code_of w \<notin> set U \<longrightarrow> code_of w \<notin> set (map sku out)))"
proof -
  let ?ids = "map code_of (matched F U) @ remaining F U"
  have len: "length ?ids = length U"
    using length_matched_remaining[of F U] by simp
  have ids: "set ?ids = set U" "distinct ?ids"
    using out_ids_set[OF assms(1)] out_ids_distinct[OF assms(1)] by simp_all
  have rem: "remaining F U = filter (\<lambda>u. u \<notin> code_of ` set F) U"
    by (rule remaining_distinct[OF assms(1)])
  let ?s = "map (\<lambda>w. \<lparr>offer_id = code_of w, stock = stock_val w\<rparr>) (matched F U)
            @ map (\<lambda>u. \<lparr>offer_id = u, stock = 0\<rparr>) (remaining F U)"
  let ?m = "map (\<lambda>w. market_entry wh d (code_of w) (stock_val w)) (matched F U)
            @ map (\<lambda>u. market_entry wh d u 0) (remaining F U)"
  have s_ids: "map offer_id ?s = ?ids"
    by (simp add: comp_def)
  have m_ids: "map sku ?m = ?ids"
    by (simp add: comp_def sku_market_entry)
  have s_len: "length ?s = length U"
    using len by simp
  have m_len: "length ?m = length U"
    using len by simp
  have s_zero: "\<forall>u\<in>set U. u \<notin> code_of ` set F \<longrightarrow> \<lparr>offer_id = u, stock = 0\<rparr> \<in> set ?s"
    by (simp add: rem)
  have m_zero: "\<forall>u\<in>set U. u \<notin> code_of ` set F \<longrightarrow> market_entry wh d u 0 \<in> set ?m"
    by (simp add: rem)
  have drop: "\<forall>w\<in>set F. code_of w \<notin> set U \<longrightarrow> code_of w \<notin> set ?ids"
    using ids(1) by simp
  have "seller_create_stocks F U = Inr (?s, remaining F U)"
    by (rule seller_create_stocks_ok[OF assms(2)])
  moreover have "market_create_stocks d F U wh = Inr (?m, remaining F U)"
    by (rule market_create_stocks_ok[OF assms(2)])
  ultimately show ?thesis
    using s_len m_len s_zero m_zero drop ids
    unfolding s_ids[symmetric] m_ids[symmetric]
    by (intro conjI exI) (assumption | simp only: s_ids m_ids)+
qed


theorem create_stocks_covers_universe_witness:
  "distinct scenario_universe \<and> quantities_ok scenario_feed scenario_universe
   \<and> (\<exists>out rest. seller_create_stocks scenario_feed scenario_universe = Inr (out, rest)
         \<and> length out = length scenario_universe
         \<and> set (map offer_id out) = set scenario_universe
         \<and> distinct (map offer_id out))
   \<and> (\<exists>out rest. market_create_stocks ''2024-01-01T00:00:00Z'' scenario_feed
                      scenario_universe ''W1'' = Inr (out, rest)
         \<and> length out = length scenario_universe
         \<and> set (map sku out) = set scenario_universe
         \<and> distinct (map sku out))"
proof -
  have h1: "distinct scenario_universe"
    by (simp add: scenario_universe_def)
  have h2: "quantities_ok scenario_feed scenario_universe"
    by code_simp
  show ?thesis
    using h1 h2
      create_stocks_covers_universe[OF h1 h2, of "''2024-01-01T00:00:00Z''" "''W1''"]
    by blast
qed

theorem create_stocks_covers_universe_counterexample:
  "distinct [''A'']
   \<and> seller_create_stocks
        [\<lparr>kod = PyStr ''A'', kolichestvo = PyStr ''abc'', tsena = PyStr ''100.00''\<rparr>] [''A'']
       = Inl ValueError
   \<and> market_create_stocks ''2024-01-01T00:00:00Z''
        [\<lparr>kod = PyStr ''A'', kolichestvo = PyStr ''abc'', tsena = PyStr ''100.00''\<rparr>] [''A''] ''W1''
       = Inl ValueError"
  by code_simp

section \<open>Order of the output\<close>

text \<open>
  Claim C5, as amended. For pairwise distinct identifiers and a feed whose selected
  records all carry an accepted quantity, the matched entries come first, but in the
  order in which their records first occur in the feed, not in the order of the
  universe; the zero entries of the unmatched identifiers follow in the order of the
  universe. The counterexample is a feed that lists B before A against the universe
  A, B.
\<close>

theorem create_stocks_order:
  assumes "distinct U" and "quantities_ok F U"
  shows "(\<exists>out rest m. seller_create_stocks F U = Inr (out, rest)
            \<and> out = m @ map (\<lambda>u. \<lparr>offer_id = u, stock = 0\<rparr>) (filter (\<lambda>u. u \<notin> code_of ` set F) U)
            \<and> map offer_id m = first_occs [] (filter (\<lambda>c. c \<in> set U) (map code_of F)))
       \<and> (\<exists>out rest m. market_create_stocks d F U wh = Inr (out, rest)
            \<and> out = m @ map (\<lambda>u. market_entry wh d u 0) (filter (\<lambda>u. u \<notin> code_of ` set F) U)
            \<and> map sku m = first_occs [] (filter (\<lambda>c. c \<in> set U) (map code_of F)))"
proof -
  have rem: "remaining F U = filter (\<lambda>u. u \<notin> code_of ` set F) U"
    by (rule remaining_distinct[OF assms(1)])
  have mat: "map code_of (matched F U) = first_occs [] (filter (\<lambda>c. c \<in> set U) (map code_of F))"
    by (rule matched_distinct[OF assms(1)])
  have s: "map offer_id (map (\<lambda>w. \<lparr>offer_id = code_of w, stock = stock_val w\<rparr>) (matched F U))
             = first_occs [] (filter (\<lambda>c. c \<in> set U) (map code_of F))"
    using mat by (simp add: comp_def)
  have m: "map sku (map (\<lambda>w. market_entry wh d (code_of w) (stock_val w)) (matched F U))
             = first_occs [] (filter (\<lambda>c. c \<in> set U) (map code_of F))"
    using mat by (simp add: comp_def sku_market_entry)
  show ?thesis
    using seller_create_stocks_ok[OF assms(2)] market_create_stocks_ok[OF assms(2), of d wh] s m
    unfolding rem by blast
qed

theorem create_stocks_order_witness:
  "distinct [''A'', ''B'', ''C'']
   \<and> quantities_ok
        [\<lparr>kod = PyStr ''B'', kolichestvo = PyInt 5, tsena = PyNone\<rparr>,
         \<lparr>kod = PyStr ''A'', kolichestvo = PyStr ''7'', tsena = PyNone\<rparr>] [''A'', ''B'', ''C'']
   \<and> (\<exists>out rest. seller_create_stocks
        [\<lparr>kod = PyStr ''B'', kolichestvo = PyInt 5, tsena = PyNone\<rparr>,
         \<lparr>kod = PyStr ''A'', kolichestvo = PyStr ''7'', tsena = PyNone\<rparr>] [''A'', ''B'', ''C'']
        = Inr (out, rest) \<and> map offer_id out = [''B'', ''A'', ''C''])"
proof -
  let ?F = "[\<lparr>kod = PyStr ''B'', kolichestvo = PyInt 5, tsena = PyNone\<rparr>,
             \<lparr>kod = PyStr ''A'', kolichestvo = PyStr ''7'', tsena = PyNone\<rparr>]"
  let ?U = "[''A'', ''B'', ''C'']"
  have h1: "distinct ?U" by simp
  have h2: "quantities_ok ?F ?U" by code_simp
  have c: "code_of ` set ?F = {''B'', ''A''}"
    by (simp add: code_of_def)
  have f: "first_occs [] (filter (\<lambda>c. c \<in> set ?U) (map code_of ?F)) = [''B'', ''A'']"
    by (simp add: code_of_def)
  from create_stocks_order[OF h1 h2, of "''d''" "''W1''"]
  obtain out rest m where
    "seller_create_stocks ?F ?U = Inr (out, rest)"
    "out = m @ map (\<lambda>u. \<lparr>offer_id = u, stock = 0\<rparr>) (filter (\<lambda>u. u \<notin> code_of ` set ?F) ?U)"
    "map offer_id m = first_occs [] (filter (\<lambda>c. c \<in> set ?U) (map code_of ?F))"
    by blast
  then have "seller_create_stocks ?F ?U = Inr (out, rest) \<and> map offer_id out = [''B'', ''A'', ''C'']"
    unfolding c f by simp
  then have "\<exists>out rest. seller_create_stocks ?F ?U = Inr (out, rest)
               \<and> map offer_id out = [''B'', ''A'', ''C'']"
    by (intro exI)
  with h1 h2 show ?thesis by (intro conjI)
qed

theorem create_stocks_order_counterexample:
  "seller_create_stocks
     [\<lparr>kod = PyStr ''B'', kolichestvo = PyInt 5, tsena = PyNone\<rparr>,
      \<lparr>kod = PyStr ''A'', kolichestvo = PyStr ''7'', tsena = PyNone\<rparr>] [''A'', ''B'']
     = Inr ([\<lparr>offer_id = ''B'', stock = 5\<rparr>, \<lparr>offer_id = ''A'', stock = 7\<rparr>], [])
   \<and> universe_order
        [\<lparr>kod = PyStr ''B'', kolichestvo = PyInt 5, tsena = PyNone\<rparr>,
         \<lparr>kod = PyStr ''A'', kolichestvo = PyStr ''7'', tsena = PyNone\<rparr>] [''A'', ''B'']
       = [''A'', ''B'']
   \<and> map offer_id [\<lparr>offer_id = ''B'', stock = 5\<rparr>, \<lparr>offer_id = ''A'', stock = 7\<rparr>]
       \<noteq> [''A'', ''B'']"
  by code_simp


section \<open>Quantities that \<^verbatim>\<open>int\<close> refuses\<close>

text \<open>
  Claim C6, as amended. The bucketing is not total: \<^verbatim>\<open>create_stocks\<close> returns normally
  exactly when every feed record selected by its first loop carries a quantity whose
  text is \<^verbatim>\<open>">10"\<close> or \<^verbatim>\<open>"1"\<close> or that \<^verbatim>\<open>int\<close> accepts. Otherwise the exception of \<^verbatim>\<open>int\<close>
  leaves the function (for the string \<^verbatim>\<open>"abc"\<close> it is \<^verbatim>\<open>ValueError\<close>) and no list is
  returned; no zero entry stands in for the record. The quantity of a record that is
  not selected is never read.
\<close>

theorem create_stocks_returns_iff:
  "(\<exists>r. seller_create_stocks F U = Inr r) = quantities_ok F U
   \<and> (\<exists>r. market_create_stocks d F U wh = Inr r) = quantities_ok F U
   \<and> (\<not> quantities_ok F U \<longrightarrow>
        (\<exists>e. seller_create_stocks F U = Inl e) \<and> (\<exists>e. market_create_stocks d F U wh = Inl e))
   \<and> is_ok (stock_of w) =
        (py_str (kolichestvo w) = ''>10'' \<or> py_str (kolichestvo w) = ''1''
           \<or> is_ok (py_int (kolichestvo w)))"
proof -
  have pos: "quantities_ok F U \<Longrightarrow>
      (\<exists>r. seller_create_stocks F U = Inr r) \<and> (\<exists>r. market_create_stocks d F U wh = Inr r)"
    by (simp add: seller_create_stocks_ok market_create_stocks_ok)
  have neg: "\<not> quantities_ok F U \<Longrightarrow>
      (\<exists>e. seller_create_stocks F U = Inl e) \<and> (\<exists>e. market_create_stocks d F U wh = Inl e)"
    unfolding seller_create_stocks_def market_create_stocks_def
    by (simp add: create_stocks_gen_fail)
  have pol: "is_ok (stock_of w) =
        (py_str (kolichestvo w) = ''>10'' \<or> py_str (kolichestvo w) = ''1''
           \<or> is_ok (py_int (kolichestvo w)))"
    by (simp add: stock_of_def is_ok_def Let_def)
  have s: "(\<exists>r. seller_create_stocks F U = Inr r) = quantities_ok F U"
  proof
    assume r: "\<exists>r. seller_create_stocks F U = Inr r"
    show "quantities_ok F U"
    proof (rule ccontr)
      assume "\<not> quantities_ok F U"
      from neg[OF this] r show False by auto
    qed
  next
    assume "quantities_ok F U"
    from pos[OF this] show "\<exists>r. seller_create_stocks F U = Inr r" by simp
  qed
  have m: "(\<exists>r. market_create_stocks d F U wh = Inr r) = quantities_ok F U"
  proof
    assume r: "\<exists>r. market_create_stocks d F U wh = Inr r"
    show "quantities_ok F U"
    proof (rule ccontr)
      assume "\<not> quantities_ok F U"
      from neg[OF this] r show False by auto
    qed
  next
    assume "quantities_ok F U"
    from pos[OF this] show "\<exists>r. market_create_stocks d F U wh = Inr r" by simp
  qed
  have neg': "\<not> quantities_ok F U \<longrightarrow>
        (\<exists>e. seller_create_stocks F U = Inl e) \<and> (\<exists>e. market_create_stocks d F U wh = Inl e)"
    using neg by (rule impI)
  from s m neg' pol show ?thesis by (intro conjI)
qed

theorem create_stocks_returns_iff_witness:
  "\<not> quantities_ok
       [\<lparr>kod = PyStr ''A'', kolichestvo = PyStr ''>10'', tsena = PyNone\<rparr>,
        \<lparr>kod = PyStr ''B'', kolichestvo = PyStr ''abc'', tsena = PyNone\<rparr>,
        \<lparr>kod = PyStr ''Z'', kolichestvo = PyStr ''n/a'', tsena = PyNone\<rparr>] [''A'', ''B'']
   \<and> (\<exists>e. seller_create_stocks
       [\<lparr>kod = PyStr ''A'', kolichestvo = PyStr ''>10'', tsena = PyNone\<rparr>,
        \<lparr>kod = PyStr ''B'', kolichestvo = PyStr ''abc'', tsena = PyNone\<rparr>,
        \<lparr>kod = PyStr ''Z'', kolichestvo = PyStr ''n/a'', tsena = PyNone\<rparr>] [''A'', ''B''] = Inl e)
   \<and> quantities_ok
       [\<lparr>kod = PyStr ''A'', kolichestvo = PyStr ''>10'', tsena = PyNone\<rparr>,
        \<lparr>kod = PyStr ''Z'', kolichestvo = PyStr ''n/a'', tsena = PyNone\<rparr>] [''A'', ''B'']
   \<and> (\<exists>r. seller_create_stocks
       [\<lparr>kod = PyStr ''A'', kolichestvo = PyStr ''>10'', tsena = PyNone\<rparr>,
        \<lparr>kod = PyStr ''Z'', kolichestvo = PyStr ''n/a'', tsena = PyNone\<rparr>] [''A'', ''B''] = Inr r)"
proof -
  let ?bad = "[\<lparr>kod = PyStr ''A'', kolichestvo = PyStr ''>10'', tsena = PyNone\<rparr>,
        \<lparr>kod = PyStr ''B'', kolichestvo = PyStr ''abc'', tsena = PyNone\<rparr>,
        \<lparr>kod = PyStr ''Z'', kolichestvo = PyStr ''n/a'', tsena = PyNone\<rparr>]"
  let ?good = "[\<lparr>kod = PyStr ''A'', kolichestvo = PyStr ''>10'', tsena = PyNone\<rparr>,
        \<lparr>kod = PyStr ''Z'', kolichestvo = PyStr ''n/a'', tsena = PyNone\<rparr>]"
  have h1: "\<not> quantities_ok ?bad [''A'', ''B'']" by code_simp
  have h2: "quantities_ok ?good [''A'', ''B'']" by code_simp
  note bad = create_stocks_returns_iff[of ?bad "[''A'', ''B'']" "''d''" "''W1''"]
  from mp[OF bad[THEN conjunct2, THEN conjunct2, THEN conjunct1] h1]
  have b: "\<exists>e. seller_create_stocks ?bad [''A'', ''B''] = Inl e"
    by (rule conjunct1)
  note good = create_stocks_returns_iff[of ?good "[''A'', ''B'']" "''d''" "''W1''"]
  from iffD2[OF good[THEN conjunct1] h2]
  have g: "\<exists>r. seller_create_stocks ?good [''A'', ''B''] = Inr r" .
  from h1 b h2 g show ?thesis by (intro conjI)
qed

theorem create_stocks_returns_iff_counterexample:
  "seller_create_stocks
       [\<lparr>kod = PyStr ''A'', kolichestvo = PyStr ''>10'', tsena = PyNone\<rparr>,
        \<lparr>kod = PyStr ''B'', kolichestvo = PyStr ''abc'', tsena = PyNone\<rparr>] [''A'', ''B'']
     = Inl ValueError
   \<and> market_create_stocks ''d''
       [\<lparr>kod = PyStr ''A'', kolichestvo = PyStr ''>10'', tsena = PyNone\<rparr>,
        \<lparr>kod = PyStr ''B'', kolichestvo = PyStr ''abc'', tsena = PyNone\<rparr>] [''A'', ''B''] ''W1''
     = Inl ValueError
   \<and> stock_of \<lparr>kod = PyStr ''B'', kolichestvo = PyStr ''abc'', tsena = PyNone\<rparr> = Inl ValueError"
  by code_simp

section \<open>The stock of a matched record\<close>



section \<open>Price normalisation\<close>

lemma split_char_nonempty: "split_char sep s \<noteq> []"
  by (induction s) (auto split: list.splits)

lemma hd_split_char: "hd (split_char sep s) = takeWhile (\<lambda>c. c \<noteq> sep) s"
  by (induction s) (auto split: list.splits simp: split_char_nonempty)

text \<open>
  Claim C8. \<^verbatim>\<open>price_conversion\<close> cuts its argument at the first \<^verbatim>\<open>"."\<close> and deletes every
  character of the kept prefix that is not one of the ten digits; whatever follows the
  first point does not reach the result. The two prices of the specification are the
  last two conjuncts; the first of them is the price 5'990.00 followed by the Russian
  abbreviation of the rouble (six bytes in UTF-8) and a full stop.
\<close>

theorem price_conversion_spec:
  "price_conversion s = normalize_price s
   \<and> price_conversion (takeWhile (\<lambda>c. c \<noteq> CHR ''.'') s @ CHR ''.'' # t) = price_conversion s
   \<and> price_conversion
        ([CHR ''5'', CHR 0x27] @ ''990.00 ''
           @ [CHR 0xD1, CHR 0x80, CHR 0xD1, CHR 0x83, CHR 0xD0, CHR 0xB1] @ ''.'') = ''5990''
   \<and> price_conversion ''1234'' = ''1234''"
proof -
  have a: "price_conversion s = normalize_price s" for s
    by (simp add: price_conversion_def normalize_price_def re_sub_non_digits_def hd_split_char)
  have "takeWhile (\<lambda>c. c \<noteq> CHR ''.'') (takeWhile (\<lambda>c. c \<noteq> CHR ''.'') s @ CHR ''.'' # t)
          = takeWhile (\<lambda>c. c \<noteq> CHR ''.'') s"
    by (induction s) auto
  then have b: "price_conversion (takeWhile (\<lambda>c. c \<noteq> CHR ''.'') s @ CHR ''.'' # t) = price_conversion s"
    by (simp add: a normalize_price_def)
  have c: "price_conversion
        ([CHR ''5'', CHR 0x27] @ ''990.00 ''
           @ [CHR 0xD1, CHR 0x80, CHR 0xD1, CHR 0x83, CHR 0xD0, CHR 0xB1] @ ''.'') = ''5990''"
    by code_simp
  have d: "price_conversion ''1234'' = ''1234''"
    by code_simp
  from a b c d show ?thesis by (intro conjI)
qed

section \<open>Batches\<close>

lemma chunks_from_concat: "0 < n \<Longrightarrow> concat (chunks_from lst n i) = drop i lst"
proof (induction lst n i rule: chunks_from.induct)
  case (1 lst n i)
  show ?case
  proof (cases "length lst \<le> i")
    case True
    then show ?thesis by (subst chunks_from.simps) simp
  next
    case False
    with 1 have "concat (chunks_from lst n (i + n)) = drop (i + n) lst" by simp
    moreover have "take n (drop i lst) @ drop (i + n) lst = drop i lst"
      by (metis add.commute append_take_drop_id drop_drop)
    ultimately show ?thesis
      using False "1.prems" by (subst chunks_from.simps) simp
  qed
qed

lemma chunks_from_lengths:
  "0 < n \<Longrightarrow> c \<in> set (chunks_from lst n i) \<Longrightarrow> 1 \<le> length c \<and> length c \<le> n"
proof (induction lst n i rule: chunks_from.induct)
  case (1 lst n i)
  show ?case
  proof (cases "length lst \<le> i")
    case True
    with "1.prems" show ?thesis by (subst (asm) chunks_from.simps) simp
  next
    case False
    from "1.prems"(2) False "1.prems"(1)
    have "c = take n (drop i lst) \<or> c \<in> set (chunks_from lst n (i + n))"
      by (subst (asm) chunks_from.simps) auto
    then show ?thesis
    proof
      assume "c = take n (drop i lst)"
      with False "1.prems"(1) show ?thesis by auto
    next
      assume "c \<in> set (chunks_from lst n (i + n))"
      with 1 False show ?thesis by simp
    qed
  qed
qed

lemma chunks_from_butlast:
  "0 < n \<Longrightarrow> c \<in> set (butlast (chunks_from lst n i)) \<Longrightarrow> length c = n"
proof (induction lst n i rule: chunks_from.induct)
  case (1 lst n i)
  show ?case
  proof (cases "length lst \<le> i")
    case True
    with "1.prems" show ?thesis by (subst (asm) chunks_from.simps) simp
  next
    case False
    note nl = False
    show ?thesis
    proof (cases "chunks_from lst n (i + n) = []")
      case True
      with "1.prems" nl show ?thesis
        by (subst (asm) chunks_from.simps) simp
    next
      case False
      then have more: "i + n < length lst"
        by (subst (asm) chunks_from.simps) (auto split: if_splits)
      from "1.prems"(2) nl "1.prems"(1) False
      have "c = take n (drop i lst) \<or> c \<in> set (butlast (chunks_from lst n (i + n)))"
        by (subst (asm) chunks_from.simps) auto
      then show ?thesis
      proof
        assume "c = take n (drop i lst)"
        with more show ?thesis by simp
      next
        assume "c \<in> set (butlast (chunks_from lst n (i + n)))"
        with 1 nl show ?thesis by simp
      qed
    qed
  qed
qed

text \<open>
  Claim C9. For a positive \<open>n\<close>, \<^verbatim>\<open>divide(lst, n)\<close> yields chunks whose concatenation is
  \<open>lst\<close>; every chunk but the last has exactly \<open>n\<close> elements and the last has between 1
  and \<open>n\<close>; the empty list yields no chunk. The chunks are a function of \<open>lst\<close> and \<open>n\<close>
  alone, so a second call on the same arguments yields the same partition.
\<close>

theorem divide_partition:
  assumes "0 < n"
  shows "\<exists>chunks. divide_lst lst n = Inr chunks
     \<and> concat chunks = lst
     \<and> (\<forall>c\<in>set (butlast chunks). int (length c) = n)
     \<and> (chunks \<noteq> [] \<longrightarrow> 1 \<le> length (last chunks) \<and> int (length (last chunks)) \<le> n)
     \<and> (\<forall>c\<in>set chunks. c \<noteq> [])
     \<and> divide_lst ([] :: 'a list) n = Inr []"
proof -
  let ?cs = "chunks_from lst (nat n) 0"
  from assms have n: "0 < nat n" by simp
  have d: "divide_lst lst n = Inr ?cs"
    using assms by (simp add: divide_lst_def)
  have c: "concat ?cs = lst"
    using chunks_from_concat[OF n, of lst 0] by simp
  have b: "\<forall>c\<in>set (butlast ?cs). int (length c) = n"
    using chunks_from_butlast[OF n, of _ lst 0] assms by auto
  have l: "?cs \<noteq> [] \<longrightarrow> 1 \<le> length (last ?cs) \<and> int (length (last ?cs)) \<le> n"
    using chunks_from_lengths[OF n, of "last ?cs" lst 0] assms by auto
  have ne: "\<forall>c\<in>set ?cs. c \<noteq> []"
  proof
    fix c assume "c \<in> set ?cs"
    from chunks_from_lengths[OF n this] show "c \<noteq> []" by auto
  qed
  have e: "divide_lst ([] :: 'a list) n = Inr []"
    using assms by (simp add: divide_lst_def chunks_from.simps)
  from d c b l ne e show ?thesis by (intro exI[of _ ?cs] conjI)
qed

theorem divide_partition_witness:
  "(0::int) < 2
   \<and> divide_lst [1, 2, 3, 4, 5 :: nat] 2 = Inr [[1, 2], [3, 4], [5]]
   \<and> concat [[1, 2], [3, 4], [5 :: nat]] = [1, 2, 3, 4, 5]"
proof -
  have h: "(0::int) < 2" by simp
  have v: "divide_lst [1, 2, 3, 4, 5 :: nat] 2 = Inr [[1, 2], [3, 4], [5]]"
    by code_simp
  from divide_partition[OF h, of "[1, 2, 3, 4, 5 :: nat]"] v
  have "concat [[1, 2], [3, 4], [5 :: nat]] = [1, 2, 3, 4, 5]"
    by auto
  with h v show ?thesis by (intro conjI)
qed

section \<open>The run of a pager\<close>

lemma concat_map_upt_Suc:
  "concat (map f [0..<Suc (Suc n)]) = f 0 @ concat (map (\<lambda>i. f (Suc i)) [0..<Suc n])"
  unfolding map_upt_Suc[of f "Suc n"] by simp

lemma seller_cursor_shift:
  assumes "api c = Inr p"
  shows "seller_cursor api c (Suc n) = seller_cursor api (last_id p) n"
  using assms by (simp add: seller_cursor_def funpow_swap1 seller_next_def)

lemma seller_items_0:
  assumes "api c = Inr p"
  shows "seller_items api c 0 = page_items p"
  using assms by (simp add: seller_items_def seller_cursor_def)

lemma seller_items_shift:
  assumes "api c = Inr p"
  shows "seller_items api c (Suc n) = seller_items api (last_id p) n"
  by (simp add: seller_items_def seller_cursor_shift[of api c p, OF assms])

lemma seller_fetched_0:
  assumes "api c = Inr p"
  shows "seller_fetched api c 0 = page_items p"
  by (simp add: seller_fetched_def seller_items_0[of api c p, OF assms])

lemma seller_fetched_shift:
  assumes "api c = Inr p"
  shows "seller_fetched api c (Suc n) = page_items p @ seller_fetched api (last_id p) n"
  unfolding seller_fetched_def concat_map_upt_Suc
  by (simp only: seller_items_0[of api c p, OF assms] seller_items_shift[of api c p, OF assms])

lemma seller_ends_shift:
  assumes "api c = Inr p"
  shows "seller_ends api c k (Suc n)
           = seller_ends api (last_id p) (k + length (page_items p)) n"
  by (simp add: seller_ends_def seller_cursor_shift[of api c p, OF assms]
        seller_fetched_shift[of api c p, OF assms] add.assoc
        split: sum.splits)

lemma seller_result_shift:
  assumes "api c = Inr p"
  shows "seller_result api c acc (Suc n)
           = seller_result api (last_id p) (acc @ page_items p) n"
  by (simp add: seller_result_def seller_cursor_shift[of api c p, OF assms]
        seller_fetched_shift[of api c p, OF assms] split: sum.splits)

lemma seller_pages_run:
  "seller_ends api c (length acc) n \<Longrightarrow> \<forall>k<n. \<not> seller_ends api c (length acc) k \<Longrightarrow>
   seller_pages api c acc = Some (seller_result api c acc n)"
proof (induction n arbitrary: c acc)
  case 0
  show ?case
  proof (cases "api c")
    case (Inl e)
    then show ?thesis
      by (subst seller_pages.simps) (simp add: seller_result_def seller_cursor_def)
  next
    case (Inr p)
    with "0.prems"(1) have "total p = int (length acc + length (page_items p))"
      by (simp add: seller_ends_def seller_cursor_def seller_fetched_0[of api c p])
    with Inr show ?thesis
      by (subst seller_pages.simps)
         (simp add: seller_result_def seller_cursor_def seller_fetched_0[of api c p])
  qed
next
  case (Suc n)
  from Suc.prems(2) have ne: "\<not> seller_ends api c (length acc) 0" by simp
  then obtain p where p: "api c = Inr p"
    by (cases "api c") (simp_all add: seller_ends_def seller_cursor_def)
  from ne p have t: "total p \<noteq> int (length acc + length (page_items p))"
    by (simp add: seller_ends_def seller_cursor_def seller_fetched_0[of api c p])
  have e: "seller_ends api (last_id p) (length (acc @ page_items p)) n"
    using Suc.prems(1) by (simp add: seller_ends_shift[of api c p, OF p])
  have b: "\<forall>k<n. \<not> seller_ends api (last_id p) (length (acc @ page_items p)) k"
  proof (intro allI impI)
    fix k assume "k < n"
    then have "\<not> seller_ends api c (length acc) (Suc k)"
      using Suc.prems(2) by simp
    then show "\<not> seller_ends api (last_id p) (length (acc @ page_items p)) k"
      by (simp add: seller_ends_shift[of api c p, OF p])
  qed
  have "seller_pages api c acc = seller_pages api (last_id p) (acc @ page_items p)"
    using p t by (subst seller_pages.simps) simp
  also have "\<dots> = Some (seller_result api (last_id p) (acc @ page_items p) n)"
    by (rule Suc.IH[OF e b])
  finally show ?case
    by (simp add: seller_result_shift[of api c p, OF p])
qed

lemma first_end:
  assumes "P (n::nat)"
  shows "\<exists>m. P m \<and> (\<forall>k<m. \<not> P k)"
proof -
  let ?m = "LEAST m. P m"
  have "P ?m" using assms by (rule LeastI)
  moreover have "\<forall>k<?m. \<not> P k" using not_less_Least by blast
  ultimately show ?thesis by blast
qed


lemma market_cursor_shift:
  "market_cursor api c (Suc n) = market_cursor api (market_next api c) n"
  by (simp add: market_cursor_def funpow_swap1)

lemma market_items_shift:
  "market_items api c (Suc n) = market_items api (market_next api c) n"
  by (simp add: market_items_def market_cursor_shift)

lemma market_fetched_0: "market_fetched api c 0 = market_items api c 0"
  by (simp add: market_fetched_def)

lemma market_fetched_shift:
  "market_fetched api c (Suc n)
     = market_items api c 0 @ market_fetched api (market_next api c) n"
  unfolding market_fetched_def concat_map_upt_Suc
  by (simp only: market_items_shift)

lemma market_ends_shift:
  "market_ends api c (Suc n) = market_ends api (market_next api c) n"
  by (simp add: market_ends_def market_cursor_shift)

lemma market_result_shift:
  "market_result api c acc (Suc n)
     = market_result api (market_next api c) (acc @ market_items api c 0) n"
  by (simp add: market_result_def market_cursor_shift market_fetched_shift split: sum.splits)

lemma no_page_iff: "no_page t = (t = None \<or> t = Some [])"
  by (cases t) (simp_all add: no_page_def)

lemma market_pages_run:
  "market_ends api c n \<Longrightarrow> \<forall>k<n. \<not> market_ends api c k \<Longrightarrow>
   market_pages api c acc = Some (market_result api c acc n)"
proof (induction n arbitrary: c acc)
  case 0
  show ?case
  proof (cases "api c")
    case (Inl e)
    then show ?thesis
      by (subst market_pages.simps) (simp add: market_result_def market_cursor_def)
  next
    case (Inr p)
    with "0.prems"(1) have "no_page (nextPageToken p)"
      by (simp add: market_ends_def market_cursor_def no_page_iff)
    with Inr show ?thesis
      by (subst market_pages.simps)
         (simp add: market_result_def market_cursor_def market_fetched_0 market_items_def)
  qed
next
  case (Suc n)
  from Suc.prems(2) have ne: "\<not> market_ends api c 0" by simp
  then obtain p where p: "api c = Inr p"
    by (cases "api c") (simp_all add: market_ends_def market_cursor_def)
  from ne p have t: "\<not> no_page (nextPageToken p)"
    by (simp add: market_ends_def market_cursor_def no_page_iff)
  then have nx: "the (nextPageToken p) = market_next api c"
    using p by (simp add: no_page_def market_next_def split: option.splits)
  have it: "market_items api c 0 = offerMappingEntries p"
    using p by (simp add: market_items_def market_cursor_def)
  have e: "market_ends api (market_next api c) n"
    using Suc.prems(1) by (simp add: market_ends_shift)
  have b: "\<forall>k<n. \<not> market_ends api (market_next api c) k"
  proof (intro allI impI)
    fix k assume "k < n"
    then have "\<not> market_ends api c (Suc k)"
      using Suc.prems(2) by simp
    then show "\<not> market_ends api (market_next api c) k"
      by (simp add: market_ends_shift)
  qed
  have "market_pages api c acc
          = market_pages api (market_next api c) (acc @ offerMappingEntries p)"
    using p t nx by (subst market_pages.simps) simp
  also have "\<dots> = Some (market_result api (market_next api c) (acc @ offerMappingEntries p) n)"
    by (rule Suc.IH[OF e b])
  finally show ?case
    by (simp add: market_result_shift it)
qed

lemma repeating_seller_ends: "seller_ends repeating_seller [] 0 1"
  by (simp add: seller_ends_def seller_cursor_def seller_next_def seller_fetched_def
        seller_items_def repeating_seller_def)

lemma repeating_market_ends: "market_ends repeating_market [] 1"
  by (simp add: market_ends_def market_cursor_def market_next_def repeating_market_def no_page_def)

lemma set_concat_upt:
  "set (concat (map f [0..<Suc n])) = (\<Union>k\<in>{..n}. set (f k))"
  by (simp del: upt_Suc add: atLeast0LessThan lessThan_Suc_atMost)

lemma repeated_not_distinct:
  assumes "j < k" and "k \<le> n" and "x \<in> set (f j)" and "x \<in> set (f k)"
  shows "\<not> distinct (concat (map f [0..<Suc n]))"
proof
  assume d: "distinct (concat (map f [0..<Suc n]))"
  have "[0..<Suc n] = [0..<k] @ [k..<Suc n]"
    using assms(2) upt_add_eq_append[of 0 k "Suc n - k"] by simp
  then have "concat (map f [0..<Suc n])
      = concat (map f [0..<k]) @ concat (map f [k..<Suc n])"
    by (simp only: map_append concat_append)
  with d have "distinct (concat (map f [0..<k]) @ concat (map f [k..<Suc n]))"
    by (simp only:)
  then have "set (concat (map f [0..<k])) \<inter> set (concat (map f [k..<Suc n])) = {}"
    by (simp only: distinct_append)
  moreover have "x \<in> set (concat (map f [0..<k]))"
    using assms(1,3) by (auto simp del: upt_Suc)
  moreover have "x \<in> set (concat (map f [k..<Suc n]))"
    using assms(2,4) by (auto simp del: upt_Suc)
  ultimately show False by blast
qed

lemma repeating_seller_first: "\<forall>k<1. \<not> seller_ends repeating_seller [] 0 k"
  by (simp add: seller_ends_def seller_cursor_def seller_next_def seller_fetched_def
        seller_items_def repeating_seller_def)

lemma repeating_market_first: "\<forall>k<1. \<not> market_ends repeating_market [] k"
  by (simp add: market_ends_def market_cursor_def market_next_def repeating_market_def no_page_def)

lemma repeating_seller_result:
  "seller_get_offer_ids repeating_seller = Some (Inr [''A'', ''A''])"
proof -
  have "seller_pages repeating_seller [] [] = Some (seller_result repeating_seller [] [] 1)"
    using repeating_seller_ends repeating_seller_first
    by (intro seller_pages_run) simp_all
  moreover have "seller_result repeating_seller [] [] 1 = Inr [''A'', ''A'']"
    by (simp add: seller_result_def seller_cursor_def seller_next_def seller_fetched_def
          seller_items_def repeating_seller_def)
  ultimately show ?thesis
    by (simp add: seller_get_offer_ids_def)
qed

lemma repeating_market_result:
  "market_get_offer_ids (\<lambda>_. repeating_market) campaign_id = Some (Inr [''A'', ''A''])"
proof -
  have "market_pages repeating_market [] [] = Some (market_result repeating_market [] [] 1)"
    using repeating_market_ends repeating_market_first
    by (intro market_pages_run) simp_all
  moreover have "market_result repeating_market [] [] 1 = Inr [''A'', ''A'']"
    by (simp add: market_result_def market_cursor_def market_next_def market_fetched_def
          market_items_def repeating_market_def)
  ultimately show ?thesis
    by (simp add: market_get_offer_ids_def)
qed

section \<open>Termination of the pagers\<close>

text \<open>
  Claim C10. Each pager leaves its loop under the test of its platform and returns all
  the items accumulated: if the run of the Seller pager has a request that raises or
  after which the reported total equals the number of items accumulated, then
  \<^verbatim>\<open>seller.get_offer_ids\<close> terminates, and if the run of the Market pager has a request
  that raises or whose page has a next-page token that is absent (\<open>None\<close>) or the empty
  string, then \<^verbatim>\<open>market.get_offer_ids\<close> terminates. The value is the exception of the
  ending request, or else the items of all requests made, in order.
\<close>

theorem pagers_terminate:
  "((\<exists>n. seller_ends sapi [] 0 n) \<longrightarrow>
      (\<exists>n. seller_ends sapi [] 0 n
          \<and> seller_get_offer_ids sapi = Some (seller_result sapi [] [] n)))
   \<and> ((\<exists>n. market_ends (mapi campaign_id) [] n) \<longrightarrow>
      (\<exists>n. market_ends (mapi campaign_id) [] n
          \<and> market_get_offer_ids mapi campaign_id
              = Some (market_result (mapi campaign_id) [] [] n)))"
proof (intro conjI impI)
  assume "\<exists>n. seller_ends sapi [] 0 n"
  then obtain n where "seller_ends sapi [] 0 n" ..
  from first_end[of "seller_ends sapi [] 0", OF this]
  obtain m where m: "seller_ends sapi [] 0 m" "\<forall>k<m. \<not> seller_ends sapi [] 0 k"
    by blast
  from seller_pages_run[of sapi "[]" "[]" m] m
  have "seller_get_offer_ids sapi = Some (seller_result sapi [] [] m)"
    by (simp add: seller_get_offer_ids_def)
  with m(1) show "\<exists>n. seller_ends sapi [] 0 n
          \<and> seller_get_offer_ids sapi = Some (seller_result sapi [] [] n)"
    by blast
next
  assume "\<exists>n. market_ends (mapi campaign_id) [] n"
  then obtain n where "market_ends (mapi campaign_id) [] n" ..
  from first_end[of "market_ends (mapi campaign_id) []", OF this]
  obtain m where m: "market_ends (mapi campaign_id) [] m"
      "\<forall>k<m. \<not> market_ends (mapi campaign_id) [] k"
    by blast
  from market_pages_run[of "mapi campaign_id" "[]" m "[]"] m
  have "market_get_offer_ids mapi campaign_id = Some (market_result (mapi campaign_id) [] [] m)"
    by (simp add: market_get_offer_ids_def)
  with m(1) show "\<exists>n. market_ends (mapi campaign_id) [] n
          \<and> market_get_offer_ids mapi campaign_id
              = Some (market_result (mapi campaign_id) [] [] n)"
    by blast
qed

theorem pagers_terminate_witness:
  "(\<exists>n. seller_ends repeating_seller [] 0 n)
   \<and> (\<exists>r. seller_get_offer_ids repeating_seller = Some r)
   \<and> (\<exists>n. market_ends ((\<lambda>_. repeating_market) ''fbs'') [] n)
   \<and> (\<exists>r. market_get_offer_ids (\<lambda>_. repeating_market) ''fbs'' = Some r)"
proof -
  have h1: "\<exists>n. seller_ends repeating_seller [] 0 n"
    using repeating_seller_ends by (rule exI)
  have h2: "\<exists>n. market_ends ((\<lambda>_. repeating_market) ''fbs'') [] n"
    using repeating_market_ends by (intro exI[of _ 1]) simp
  note t = pagers_terminate[of repeating_seller "\<lambda>_. repeating_market" "''fbs''"]
  from mp[OF t[THEN conjunct1] h1]
  have c1: "\<exists>r. seller_get_offer_ids repeating_seller = Some r" by blast
  from mp[OF t[THEN conjunct2] h2]
  have c2: "\<exists>r. market_get_offer_ids (\<lambda>_. repeating_market) ''fbs'' = Some r" by blast
  from h1 c1 h2 c2 show ?thesis by (intro conjI)
qed

section \<open>The universe assembled by paging\<close>

text \<open>
  Claim C2, as amended. \<^verbatim>\<open>get_offer_ids\<close> removes no duplicates. When its loop ends at
  request \<open>n\<close> without an exception, the list returned is the concatenation, in page
  order, of the items of the requests \<open>0\<close> to \<open>n\<close>; hence its set of identifiers is the
  union of the items of all pages, and an identifier that two pages list occurs in it
  more than once. The counterexample is a catalogue of two pages that both list A, for
  either platform.
\<close>

theorem get_offer_ids_concatenates:
  "(seller_ends sapi [] 0 n \<and> (\<forall>k<n. \<not> seller_ends sapi [] 0 k)
      \<and> is_ok (sapi (seller_cursor sapi [] n)) \<longrightarrow>
      (\<exists>ids. seller_get_offer_ids sapi = Some (Inr ids)
         \<and> ids = concat (map (seller_items sapi []) [0..<Suc n])
         \<and> set ids = (\<Union>k\<in>{..n}. set (seller_items sapi [] k))
         \<and> ((\<exists>j k. j < k \<and> k \<le> n
                \<and> set (seller_items sapi [] j) \<inter> set (seller_items sapi [] k) \<noteq> {})
              \<longrightarrow> \<not> distinct ids)))
   \<and> (market_ends (mapi campaign_id) [] n \<and> (\<forall>k<n. \<not> market_ends (mapi campaign_id) [] k)
      \<and> is_ok (mapi campaign_id (market_cursor (mapi campaign_id) [] n)) \<longrightarrow>
      (\<exists>ids. market_get_offer_ids mapi campaign_id = Some (Inr ids)
         \<and> ids = concat (map (market_items (mapi campaign_id) []) [0..<Suc n])
         \<and> set ids = (\<Union>k\<in>{..n}. set (market_items (mapi campaign_id) [] k))
         \<and> ((\<exists>j k. j < k \<and> k \<le> n
                \<and> set (market_items (mapi campaign_id) [] j)
                    \<inter> set (market_items (mapi campaign_id) [] k) \<noteq> {})
              \<longrightarrow> \<not> distinct ids)))"
proof (intro conjI impI)
  let ?ids = "concat (map (seller_items sapi []) [0..<Suc n])"
  assume h: "seller_ends sapi [] 0 n \<and> (\<forall>k<n. \<not> seller_ends sapi [] 0 k)
      \<and> is_ok (sapi (seller_cursor sapi [] n))"
  then have "seller_get_offer_ids sapi = Some (seller_result sapi [] [] n)"
    using seller_pages_run[of sapi "[]" "[]" n] by (simp add: seller_get_offer_ids_def)
  moreover from h have "seller_result sapi [] [] n = Inr ?ids"
    by (simp add: seller_result_def seller_fetched_def is_ok_def split: sum.splits)
  ultimately have r: "seller_get_offer_ids sapi = Some (Inr ?ids)" by simp
  have s: "set ?ids = (\<Union>k\<in>{..n}. set (seller_items sapi [] k))"
    by (rule set_concat_upt)
  have d: "(\<exists>j k. j < k \<and> k \<le> n
                \<and> set (seller_items sapi [] j) \<inter> set (seller_items sapi [] k) \<noteq> {})
              \<longrightarrow> \<not> distinct ?ids"
    using repeated_not_distinct[of _ _ n _ "seller_items sapi []"] by blast
  from r s d show "\<exists>ids. seller_get_offer_ids sapi = Some (Inr ids)
         \<and> ids = concat (map (seller_items sapi []) [0..<Suc n])
         \<and> set ids = (\<Union>k\<in>{..n}. set (seller_items sapi [] k))
         \<and> ((\<exists>j k. j < k \<and> k \<le> n
                \<and> set (seller_items sapi [] j) \<inter> set (seller_items sapi [] k) \<noteq> {})
              \<longrightarrow> \<not> distinct ids)"
    by (intro exI[of _ ?ids] conjI refl)
next
  let ?api = "mapi campaign_id"
  let ?ids = "concat (map (market_items ?api []) [0..<Suc n])"
  assume h: "market_ends ?api [] n \<and> (\<forall>k<n. \<not> market_ends ?api [] k)
      \<and> is_ok (?api (market_cursor ?api [] n))"
  then have "market_get_offer_ids mapi campaign_id = Some (market_result ?api [] [] n)"
    using market_pages_run[of ?api "[]" n "[]"] by (simp add: market_get_offer_ids_def)
  moreover from h have "market_result ?api [] [] n = Inr ?ids"
    by (simp add: market_result_def market_fetched_def is_ok_def split: sum.splits)
  ultimately have r: "market_get_offer_ids mapi campaign_id = Some (Inr ?ids)" by simp
  have s: "set ?ids = (\<Union>k\<in>{..n}. set (market_items ?api [] k))"
    by (rule set_concat_upt)
  have d: "(\<exists>j k. j < k \<and> k \<le> n
                \<and> set (market_items ?api [] j) \<inter> set (market_items ?api [] k) \<noteq> {})
              \<longrightarrow> \<not> distinct ?ids"
    using repeated_not_distinct[of _ _ n _ "market_items ?api []"] by blast
  from r s d show "\<exists>ids. market_get_offer_ids mapi campaign_id = Some (Inr ids)
         \<and> ids = concat (map (market_items ?api []) [0..<Suc n])
         \<and> set ids = (\<Union>k\<in>{..n}. set (market_items ?api [] k))
         \<and> ((\<exists>j k. j < k \<and> k \<le> n
                \<and> set (market_items ?api [] j) \<inter> set (market_items ?api [] k) \<noteq> {})
              \<longrightarrow> \<not> distinct ids)"
    by (intro exI[of _ ?ids] conjI refl)
qed

theorem get_offer_ids_concatenates_counterexample:
  "market_get_offer_ids (\<lambda>_. repeating_market) ''fbs'' = Some (Inr [''A'', ''A''])
   \<and> seller_get_offer_ids repeating_seller = Some (Inr [''A'', ''A''])
   \<and> \<not> distinct [''A'', ''A'']"
  using repeating_market_result[of "''fbs''"] repeating_seller_result by simp

theorem get_offer_ids_concatenates_witness:
  "seller_ends repeating_seller [] 0 1 \<and> \<not> seller_ends repeating_seller [] 0 0
   \<and> is_ok (repeating_seller (seller_cursor repeating_seller [] 1))
   \<and> (\<exists>ids. seller_get_offer_ids repeating_seller = Some (Inr ids)
         \<and> ids = concat (map (seller_items repeating_seller []) [0..<Suc 1]))
   \<and> market_ends repeating_market [] 1 \<and> \<not> market_ends repeating_market [] 0
   \<and> is_ok (repeating_market (market_cursor repeating_market [] 1))
   \<and> (\<exists>ids. market_get_offer_ids (\<lambda>_. repeating_market) ''fbs'' = Some (Inr ids)
         \<and> ids = concat (map (market_items repeating_market []) [0..<Suc 1]))"
proof -
  have s1: "seller_ends repeating_seller [] 0 1"
    by (rule repeating_seller_ends)
  have s2: "\<not> seller_ends repeating_seller [] 0 0"
    using repeating_seller_first by simp
  have s3: "is_ok (repeating_seller (seller_cursor repeating_seller [] 1))"
    by (simp add: is_ok_def seller_cursor_def seller_next_def repeating_seller_def)
  have m1: "market_ends repeating_market [] 1"
    by (rule repeating_market_ends)
  have m2: "\<not> market_ends repeating_market [] 0"
    using repeating_market_first by simp
  have m3: "is_ok (repeating_market (market_cursor repeating_market [] 1))"
    by (simp add: is_ok_def market_cursor_def market_next_def repeating_market_def)
  note t = get_offer_ids_concatenates[of repeating_seller 1 "\<lambda>_. repeating_market" "''fbs''"]
  have hs: "seller_ends repeating_seller [] 0 1 \<and> (\<forall>k<1. \<not> seller_ends repeating_seller [] 0 k)
      \<and> is_ok (repeating_seller (seller_cursor repeating_seller [] 1))"
    using s1 repeating_seller_first s3 by (intro conjI)
  have hm: "market_ends repeating_market [] 1 \<and> (\<forall>k<1. \<not> market_ends repeating_market [] k)
      \<and> is_ok (repeating_market (market_cursor repeating_market [] 1))"
    using m1 repeating_market_first m3 by (intro conjI)
  from mp[OF t[THEN conjunct1] hs]
  obtain ids where "seller_get_offer_ids repeating_seller = Some (Inr ids)"
    and "ids = concat (map (seller_items repeating_seller []) [0..<Suc 1])"
    by (elim exE conjE)
  then have cs: "\<exists>ids. seller_get_offer_ids repeating_seller = Some (Inr ids)
         \<and> ids = concat (map (seller_items repeating_seller []) [0..<Suc 1])"
    by (intro exI conjI)
  from mp[OF t[THEN conjunct2] hm]
  obtain ids' where "market_get_offer_ids (\<lambda>_. repeating_market) ''fbs'' = Some (Inr ids')"
    and "ids' = concat (map (market_items repeating_market []) [0..<Suc 1])"
    by (elim exE conjE)
  then have cm: "\<exists>ids. market_get_offer_ids (\<lambda>_. repeating_market) ''fbs'' = Some (Inr ids)
         \<and> ids = concat (map (market_items repeating_market []) [0..<Suc 1])"
    by (intro exI conjI)
  show ?thesis
    by (rule conjI[OF s1 conjI[OF s2 conjI[OF s3 conjI[OF cs
          conjI[OF m1 conjI[OF m2 conjI[OF m3 cm]]]]]]])
qed

section \<open>Requests made by \<^verbatim>\<open>main\<close>\<close>

lemma count_matched_remaining:
  "count_list (map code_of (matched F U)) x + count_list (remaining F U) x = count_list U x"
proof (induction F arbitrary: U)
  case Nil
  show ?case by simp
next
  case (Cons w ws)
  show ?case
  proof (cases "code_of w \<in> set U")
    case False
    then show ?thesis by (simp add: Cons.IH)
  next
    case True
    then have "count_list U (code_of w) \<noteq> 0"
      by (simp only: count_list_0_iff not_not)
    then have pos: "0 < count_list U (code_of w)"
      by arith
    have "count_list (map code_of (matched (w # ws) U)) x + count_list (remaining (w # ws) U) x
        = (if code_of w = x then 1 else 0) + count_list (remove1 (code_of w) U) x"
      using True by (simp del: count_list_remove1 add: Cons.IH)
    also have "\<dots> = count_list U x"
      using pos by (auto simp: count_list_remove1)
    finally show ?thesis .
  qed
qed

lemma prices_loop_entries:
  "prices_loop F ids acc = Inr prices \<Longrightarrow> p \<in> set prices \<Longrightarrow>
   p \<in> set acc \<or> (seller_price.offer_id p \<in> set ids \<and> seller_price.offer_id p \<in> code_of ` set F)"
proof (induction F arbitrary: acc)
  case Nil
  then show ?case by simp
next
  case (Cons w ws)
  show ?case
  proof (cases "code_of w \<in> set ids")
    case False
    with Cons.prems Cons.IH[of acc] show ?thesis by auto
  next
    case True
    with Cons.prems(1) obtain q where q: "price_conversion_cell (tsena w) = Inr q"
      by (cases "price_conversion_cell (tsena w)") simp_all
    let ?e = "\<lparr>auto_action_enabled = ''UNKNOWN'', currency_code = ''RUB'',
               seller_price.offer_id = code_of w, old_price = ''0'', price = q\<rparr>"
    from True q Cons.prems(1) have "prices_loop ws ids (acc @ [?e]) = Inr prices"
      by simp
    from Cons.IH[OF this Cons.prems(2)] True show ?thesis by auto
  qed
qed

lemma create_prices_entries:
  "seller_create_prices F ids = Inr prices \<Longrightarrow> p \<in> set prices \<Longrightarrow>
   seller_price.offer_id p \<in> set ids \<and> seller_price.offer_id p \<in> code_of ` set F"
  using prices_loop_entries[of F ids "[]" prices p] by (simp add: seller_create_prices_def)

lemma send_all_sent: "set (fst (send_all update bs sent)) \<subseteq> set sent \<union> set bs"
proof (induction bs arbitrary: sent)
  case Nil
  then show ?case by simp
next
  case (Cons b bs)
  show ?case
  proof (cases "update b")
    case None
    with Cons[of "sent @ [b]"] show ?thesis by auto
  next
    case (Some e)
    then show ?thesis by auto
  qed
qed

lemma divide_lst_elements:
  assumes "divide_lst lst n = Inr chunks" and "c \<in> set chunks"
  shows "set c \<subseteq> set lst"
proof (cases "0 < n")
  case True
  with assms(1) have "chunks = chunks_from lst (nat n) 0"
    by (simp add: divide_lst_def)
  moreover from True have "concat (chunks_from lst (nat n) 0) = lst"
    using chunks_from_concat[of "nat n" lst 0] by simp
  ultimately have "concat chunks = lst" by simp
  with assms(2) show ?thesis by auto
next
  case False
  with assms show ?thesis
    by (simp add: divide_lst_def split: if_splits)
qed

lemma seller_main_price_calls:
  assumes ids: "seller_get_offer_ids api = Some (Inr U)"
    and st: "seller_create_stocks F U = Inr (out, rest)"
    and run: "seller_main api (Inr F) update_stocks update_price = Some r"
    and b: "Update_price b \<in> set (calls r)" and p: "p \<in> set b"
  shows "\<exists>prices. seller_create_prices F rest = Inr prices \<and> p \<in> set prices"
proof -
  obtain sb where sb: "divide_lst out 100 = Inr sb"
    by (simp add: divide_lst_def)
  obtain sent err where se: "send_all update_stocks sb [] = (sent, err)"
    by (cases "send_all update_stocks sb []")
  have en: "err = None"
  proof (cases err)
    case (Some e)
    with ids st sb se have "seller_main api (Inr F) update_stocks update_price
        = Some \<lparr>calls = map Update_stocks sent, printed = Some (handler e)\<rparr>"
      by (simp add: seller_main_def)
    with run have "calls r = map Update_stocks sent" by auto
    with b show ?thesis by auto
  qed
  have "\<exists>prices. seller_create_prices F rest = Inr prices"
  proof (cases "seller_create_prices F rest")
    case (Inl e)
    with ids st sb se en have "seller_main api (Inr F) update_stocks update_price
        = Some \<lparr>calls = map Update_stocks sent, printed = Some (handler e)\<rparr>"
      by (simp add: seller_main_def)
    with run have "calls r = map Update_stocks sent" by auto
    with b show ?thesis by auto
  next
    case (Inr prices)
    then show ?thesis by simp
  qed
  then obtain prices where pr: "seller_create_prices F rest = Inr prices" ..
  obtain pb where pb: "divide_lst prices 900 = Inr pb"
    by (simp add: divide_lst_def)
  obtain psent perr where ps: "send_all update_price pb [] = (psent, perr)"
    by (cases "send_all update_price pb []")
  from ids st sb se en pr pb ps
  have "seller_main api (Inr F) update_stocks update_price
        = Some \<lparr>calls = map Update_stocks sent @ map Update_price psent,
                 printed = map_option handler perr\<rparr>"
    by (simp add: seller_main_def)
  with run have "calls r = map Update_stocks sent @ map Update_price psent" by auto
  with b have "b \<in> set psent" by auto
  with send_all_sent[of update_price pb "[]"] ps have "b \<in> set pb" by auto
  from divide_lst_elements[OF pb this] p have "p \<in> set prices" by auto
  with pr show ?thesis by simp
qed

lemma disjoint_prices_loop:
  "set ids \<inter> code_of ` set F = {} \<Longrightarrow> prices_loop F ids acc = Inr acc"
  by (induction F arbitrary: acc) auto

lemma seller_main_no_prices:
  assumes "distinct U"
  shows "seller_create_prices F (remaining F U) = Inr []"
  unfolding seller_create_prices_def
  by (rule disjoint_prices_loop) (auto simp: remaining_distinct[OF assms])

lemma market_pages_raises: "api [] = Inl e \<Longrightarrow> market_pages api [] [] = Some (Inl e)"
  by (subst market_pages.simps) simp

lemma market_pages_single:
  "api [] = Inr p \<Longrightarrow> no_page (nextPageToken p) \<Longrightarrow>
   market_pages api [] [] = Some (Inr (offerMappingEntries p))"
  by (subst market_pages.simps) simp

lemma divide_lst_single: "divide_lst [x] 2000 = Inr [[x]]"
proof -
  have "chunks_from [x] 2000 0 = [[x]]"
    by (subst chunks_from.simps, simp, subst chunks_from.simps, simp)
  then show ?thesis by (simp add: divide_lst_def)
qed

lemma fbs_down_dbs_block:
  "market_block fbs_down accept_all ''d2'' scenario_feed ''dbs'' ''W2''
     = Some ([[market_entry ''W2'' ''d2'' ''A'' 100]], None)"
proof -
  have "market_get_offer_ids fbs_down ''dbs'' = Some (Inr [''A''])"
    using market_pages_single[of "fbs_down ''dbs''"
        "\<lparr>offerMappingEntries = [''A''], nextPageToken = None\<rparr>"]
    by (simp add: market_get_offer_ids_def fbs_down_def no_page_def)
  moreover have "market_create_stocks ''d2'' scenario_feed [''A''] ''W2''
      = Inr ([market_entry ''W2'' ''d2'' ''A'' 100], [])"
    by code_simp
  ultimately show ?thesis
    by (simp add: market_block_def divide_lst_single accept_all_def)
qed

section \<open>The list shared by \<^verbatim>\<open>create_stocks\<close> and \<^verbatim>\<open>create_prices\<close>\<close>

text \<open>
  Claim C3, as amended. \<^verbatim>\<open>create_stocks\<close> (in both modules) removes from the caller's
  list one occurrence of the identifier for every record it matches. For pairwise
  distinct identifiers the list afterwards holds exactly the identifiers that no feed
  record carries; when an identifier is repeated, the list can still hold an identifier
  that a record matched. \<^verbatim>\<open>seller.main\<close> hands that same list to \<^verbatim>\<open>create_prices\<close>, hence
  every price entry that \<^verbatim>\<open>create_prices\<close> emits there, and every entry of a price
  request of \<^verbatim>\<open>main\<close>, has a feed code that is still in the mutated list. The
  counterexample is the universe A, A (which the pager returns for a catalogue whose
  two pages both list A) against a feed with one record for A: the list afterwards is
  A, and \<^verbatim>\<open>main\<close> sends a price for A.
\<close>

theorem create_stocks_mutates_offer_ids:
  assumes "quantities_ok F U"
  shows "\<exists>out out' rest. seller_create_stocks F U = Inr (out, rest)
      \<and> market_create_stocks d F U wh = Inr (out', rest)
      \<and> (\<forall>x. count_list (map code_of (matched F U)) x + count_list rest x = count_list U x)
      \<and> (distinct U \<longrightarrow> rest = filter (\<lambda>u. u \<notin> code_of ` set F) U)
      \<and> (\<forall>prices p. seller_create_prices F rest = Inr prices \<and> p \<in> set prices
            \<longrightarrow> seller_price.offer_id p \<in> set rest)
      \<and> (\<forall>api update_stocks update_price r b p.
            seller_get_offer_ids api = Some (Inr U)
            \<and> seller_main api (Inr F) update_stocks update_price = Some r
            \<and> Update_price b \<in> set (calls r) \<and> p \<in> set b
            \<longrightarrow> seller_price.offer_id p \<in> set rest
                \<and> seller_price.offer_id p \<in> code_of ` set F)"
proof -
  let ?rest = "remaining F U"
  note s = seller_create_stocks_ok[OF assms]
  note m = market_create_stocks_ok[OF assms, of d wh]
  have c: "\<forall>x. count_list (map code_of (matched F U)) x + count_list ?rest x = count_list U x"
    by (simp add: count_matched_remaining)
  have d: "distinct U \<longrightarrow> ?rest = filter (\<lambda>u. u \<notin> code_of ` set F) U"
    by (simp add: remaining_distinct)
  have p: "\<forall>prices p. seller_create_prices F ?rest = Inr prices \<and> p \<in> set prices
            \<longrightarrow> seller_price.offer_id p \<in> set ?rest"
    using create_prices_entries[of F ?rest] by blast
  have r: "\<forall>api update_stocks update_price r b p.
            seller_get_offer_ids api = Some (Inr U)
            \<and> seller_main api (Inr F) update_stocks update_price = Some r
            \<and> Update_price b \<in> set (calls r) \<and> p \<in> set b
            \<longrightarrow> seller_price.offer_id p \<in> set ?rest
                \<and> seller_price.offer_id p \<in> code_of ` set F"
  proof (intro allI impI, elim conjE)
    fix api update_stocks update_price r b p
    assume "seller_get_offer_ids api = Some (Inr U)"
      and "seller_main api (Inr F) update_stocks update_price = Some r"
      and "Update_price b \<in> set (calls r)" and "p \<in> set b"
    from seller_main_price_calls[OF this(1) s this(2,3,4)]
    obtain prices where "seller_create_prices F ?rest = Inr prices" "p \<in> set prices"
      by blast
    then show "seller_price.offer_id p \<in> set ?rest
                \<and> seller_price.offer_id p \<in> code_of ` set F"
      by (rule create_prices_entries)
  qed
  from s m c d p r show ?thesis
    by (intro exI conjI)
qed

theorem create_stocks_mutates_offer_ids_witness:
  "quantities_ok scenario_feed scenario_universe
   \<and> (\<exists>out rest. seller_create_stocks scenario_feed scenario_universe = Inr (out, rest)
          \<and> rest = [''C''])"
proof -
  have h: "quantities_ok scenario_feed scenario_universe" by code_simp
  have d: "distinct scenario_universe" by (simp add: scenario_universe_def)
  have f: "filter (\<lambda>u. u \<notin> code_of ` set scenario_feed) scenario_universe = [''C'']"
    by (simp add: scenario_feed_def scenario_universe_def code_of_def)
  from create_stocks_mutates_offer_ids[OF h, of "''d''" "''W1''"]
  obtain out rest where "seller_create_stocks scenario_feed scenario_universe = Inr (out, rest)"
    and "distinct scenario_universe \<longrightarrow>
           rest = filter (\<lambda>u. u \<notin> code_of ` set scenario_feed) scenario_universe"
    by (elim exE conjE)
  with d f have "seller_create_stocks scenario_feed scenario_universe = Inr (out, rest)
          \<and> rest = [''C'']"
    by simp
  then have "\<exists>out rest. seller_create_stocks scenario_feed scenario_universe = Inr (out, rest)
          \<and> rest = [''C'']"
    by (intro exI)
  with h show ?thesis by (rule conjI)
qed

theorem create_stocks_mutates_offer_ids_counterexample:
  "seller_get_offer_ids repeating_seller = Some (Inr [''A'', ''A''])
   \<and> seller_create_stocks
        [\<lparr>kod = PyStr ''A'', kolichestvo = PyStr ''5'', tsena = PyStr ''100.00''\<rparr>]
        [''A'', ''A'']
       = Inr ([\<lparr>offer_id = ''A'', stock = 5\<rparr>, \<lparr>offer_id = ''A'', stock = 0\<rparr>], [''A''])
   \<and> code_of \<lparr>kod = PyStr ''A'', kolichestvo = PyStr ''5'', tsena = PyStr ''100.00''\<rparr> = ''A''
   \<and> seller_main repeating_seller
        (Inr [\<lparr>kod = PyStr ''A'', kolichestvo = PyStr ''5'', tsena = PyStr ''100.00''\<rparr>])
        (\<lambda>batch. None) (\<lambda>batch. None)
       = Some \<lparr>calls =
                  [Update_stocks [\<lparr>offer_id = ''A'', stock = 5\<rparr>, \<lparr>offer_id = ''A'', stock = 0\<rparr>],
                   Update_price
                     [\<lparr>auto_action_enabled = ''UNKNOWN'', currency_code = ''RUB'',
                       seller_price.offer_id = ''A'', old_price = ''0'', price = ''100''\<rparr>]],
                printed = None\<rparr>"
proof -
  let ?w = "\<lparr>kod = PyStr ''A'', kolichestvo = PyStr ''5'', tsena = PyStr ''100.00''\<rparr>"
  let ?stocks = "[\<lparr>offer_id = ''A'', stock = 5\<rparr>, \<lparr>offer_id = ''A'', stock = 0\<rparr>]"
  let ?prices = "[\<lparr>auto_action_enabled = ''UNKNOWN'', currency_code = ''RUB'',
                       seller_price.offer_id = ''A'', old_price = ''0'', price = ''100''\<rparr>]"
  have ids: "seller_get_offer_ids repeating_seller = Some (Inr [''A'', ''A''])"
    by (rule repeating_seller_result)
  have st: "seller_create_stocks [?w] [''A'', ''A''] = Inr (?stocks, [''A''])"
    by code_simp
  have c: "code_of ?w = ''A''"
    by (simp add: code_of_def)
  have sb: "divide_lst ?stocks 100 = Inr [?stocks]"
    by code_simp
  have pr: "seller_create_prices [?w] [''A''] = Inr ?prices"
    by code_simp
  have pb: "divide_lst ?prices 900 = Inr [?prices]"
    by code_simp
  have run: "seller_main repeating_seller (Inr [?w]) (\<lambda>batch. None) (\<lambda>batch. None)
       = Some \<lparr>calls = [Update_stocks ?stocks, Update_price ?prices], printed = None\<rparr>"
    by (simp add: seller_main_def ids st sb pr pb)
  show ?thesis
    by (rule conjI[OF ids conjI[OF st conjI[OF c run]]])
qed

section \<open>Failures and the second campaign\<close>

text \<open>
  Claim C4, as amended. \<^verbatim>\<open>market.main\<close> runs both campaigns inside one \<^verbatim>\<open>try\<close>. An
  exception in the FBS block (be it the first listing request or a batch that is
  refused) is caught and printed and ends \<^verbatim>\<open>main\<close>: the requests made are the FBS
  batches accepted before it, and the DBS block does not run. When the FBS block
  completes, the DBS block runs after it; its requests follow those of FBS, which an
  exception in the DBS block leaves as they are. \<^verbatim>\<open>seller.main\<close> has the same single
  \<^verbatim>\<open>try\<close> around its one platform. The counterexample is a run in which
  listing the FBS campaign fails to connect: \<^verbatim>\<open>main\<close> makes no request at all, whereas
  the DBS block on its own would have sent one batch.
\<close>

theorem market_main_one_try:
  "(market_block api update_stocks d1 F fbs w1 = Some (sent, Some e) \<longrightarrow>
      market_main api update_stocks d1 d2 F fbs dbs w1 w2
        = Some \<lparr>calls = map (Pair fbs) sent, printed = Some (handler e)\<rparr>)
   \<and> (market_block api update_stocks d1 F fbs w1 = Some (sent, None)
       \<and> market_block api update_stocks d2 F dbs w2 = Some (sent', err) \<longrightarrow>
      market_main api update_stocks d1 d2 F fbs dbs w1 w2
        = Some \<lparr>calls = map (Pair fbs) sent @ map (Pair dbs) sent',
                 printed = map_option handler err\<rparr>)
   \<and> (api fbs [] = Inl e \<longrightarrow>
      market_main api update_stocks d1 d2 F fbs dbs w1 w2
        = Some \<lparr>calls = [], printed = Some (handler e)\<rparr>)
   \<and> (market_get_offer_ids api fbs = Some (Inr U)
       \<and> market_create_stocks d1 F U w1 = Inr (stocks, rest)
       \<and> divide_lst stocks 2000 = Inr (b1 # b2 # bs)
       \<and> update_stocks fbs b1 = None \<and> update_stocks fbs b2 = Some e \<longrightarrow>
      market_main api update_stocks d1 d2 F fbs dbs w1 w2
        = Some \<lparr>calls = [(fbs, b1)], printed = Some (handler e)\<rparr>)
   \<and> (seller_get_offer_ids sapi = Some (Inl e) \<longrightarrow>
      seller_main sapi download seller_update_stocks seller_update_price
        = Some \<lparr>calls = [], printed = Some (handler e)\<rparr>)"
proof (intro conjI impI)
  assume "market_block api update_stocks d1 F fbs w1 = Some (sent, Some e)"
  then show "market_main api update_stocks d1 d2 F fbs dbs w1 w2
        = Some \<lparr>calls = map (Pair fbs) sent, printed = Some (handler e)\<rparr>"
    by (simp add: market_main_def)
next
  assume "market_block api update_stocks d1 F fbs w1 = Some (sent, None)
       \<and> market_block api update_stocks d2 F dbs w2 = Some (sent', err)"
  then show "market_main api update_stocks d1 d2 F fbs dbs w1 w2
        = Some \<lparr>calls = map (Pair fbs) sent @ map (Pair dbs) sent',
                 printed = map_option handler err\<rparr>"
    by (simp add: market_main_def)
next
  assume "api fbs [] = Inl e"
  then have "market_get_offer_ids api fbs = Some (Inl e)"
    by (simp add: market_get_offer_ids_def market_pages_raises)
  then have "market_block api update_stocks d1 F fbs w1 = Some ([], Some e)"
    by (simp add: market_block_def)
  then show "market_main api update_stocks d1 d2 F fbs dbs w1 w2
        = Some \<lparr>calls = [], printed = Some (handler e)\<rparr>"
    by (simp add: market_main_def)
next
  assume "market_get_offer_ids api fbs = Some (Inr U)
       \<and> market_create_stocks d1 F U w1 = Inr (stocks, rest)
       \<and> divide_lst stocks 2000 = Inr (b1 # b2 # bs)
       \<and> update_stocks fbs b1 = None \<and> update_stocks fbs b2 = Some e"
  then have "market_block api update_stocks d1 F fbs w1 = Some ([b1], Some e)"
    by (simp add: market_block_def)
  then show "market_main api update_stocks d1 d2 F fbs dbs w1 w2
        = Some \<lparr>calls = [(fbs, b1)], printed = Some (handler e)\<rparr>"
    by (simp add: market_main_def)
next
  assume "seller_get_offer_ids sapi = Some (Inl e)"
  then show "seller_main sapi download seller_update_stocks seller_update_price
        = Some \<lparr>calls = [], printed = Some (handler e)\<rparr>"
    by (simp add: seller_main_def)
qed

theorem market_main_one_try_counterexample:
  "market_main fbs_down accept_all ''d1'' ''d2'' scenario_feed ''fbs'' ''dbs'' ''W1'' ''W2''
     = Some \<lparr>calls = [], printed = Some (Connection_message ConnectionError)\<rparr>
   \<and> market_block fbs_down accept_all ''d2'' scenario_feed ''dbs'' ''W2''
     = Some ([[market_entry ''W2'' ''d2'' ''A'' 100]], None)"
proof -
  have "market_get_offer_ids fbs_down ''fbs'' = Some (Inl ConnectionError)"
    by (simp add: market_get_offer_ids_def market_pages_raises fbs_down_def)
  then have "market_block fbs_down accept_all ''d1'' scenario_feed ''fbs'' ''W1''
      = Some ([], Some ConnectionError)"
    by (simp add: market_block_def)
  then have "market_main fbs_down accept_all ''d1'' ''d2'' scenario_feed ''fbs'' ''dbs'' ''W1'' ''W2''
     = Some \<lparr>calls = [], printed = Some (Connection_message ConnectionError)\<rparr>"
    by (simp add: market_main_def handler_def)
  with fbs_down_dbs_block show ?thesis by simp
qed

theorem market_main_one_try_witness:
  "fbs_down ''fbs'' [] = Inl ConnectionError
   \<and> market_main fbs_down accept_all ''d1'' ''d2'' scenario_feed ''fbs'' ''dbs'' ''W1'' ''W2''
     = Some \<lparr>calls = [], printed = Some (handler ConnectionError)\<rparr>"
proof -
  have h: "fbs_down ''fbs'' [] = Inl ConnectionError"
    by (simp add: fbs_down_def)
  note t = market_main_one_try[of fbs_down accept_all "''d1''" scenario_feed "''fbs''" "''W1''"
      "[]" ConnectionError "''d2''" "''dbs''" "''W2''"]
  from mp[OF t[THEN conjunct2, THEN conjunct2, THEN conjunct1] h] h
  show ?thesis by (intro conjI)
qed


end
